theory Spec2Isabelle
  imports Main "HOL-Library.Word"
begin

section \<open>librequests: a shallow embedding of requests.c\<close>

text \<open>
  The library wraps libcurl: a request context \<open>req_t\<close> collects the response body and
  the response header lines through two callbacks, and the GET and POST/PUT pipelines
  set the options of a transfer, perform it and record the status code.

  C values are modelled as follows.
  \<^item> \<open>size_t\<close> and \<open>long\<close> are 64-bit words (\<open>+\<close> and \<open>*\<close> wrap; \<open>sint\<close> reads a
    \<open>long\<close>). An \<open>int\<close> is an integer; where the code increments an \<open>int\<close> counter,
    the increment of \<open>INT_MAX\<close> (signed overflow) is a fault.
  \<^item> A pointer is \<open>Null\<close>, \<open>Live v\<close> (it designates a live object with contents \<open>v\<close>)
    or \<open>Invalid\<close> (never initialised, or already freed).
  \<^item> A \<open>char*\<close> argument that the code reads as a C string is the list of the bytes at
    the pointer; the string is what precedes the first zero byte (\<open>cstr\<close>). A string
    that \<open>strndup\<close> made is the list of its characters. The body buffer \<open>text\<close>, which
    is grown and appended to in place, is the list of all the bytes of its heap block,
    terminator included.
  \<^item> The memory a callback receives in \<open>content\<close> is a function from offsets to bytes:
    the delivered chunk is its first \<open>size * nmemb\<close> bytes, and what follows the chunk
    is whatever follows it in the engine's buffer.
  \<^item> Undefined behaviour (a null or invalid pointer dereferenced or freed, an access
    beyond a block, a signed overflow) is a \<open>fault\<close>, returned as \<open>Inl\<close>.
  \<^item> Every allocation takes its outcome as an argument.
\<close>

subsection \<open>C values\<close>

type_synonym size_t = "64 word"
type_synonym long = "64 word"
type_synonym mem = "nat \<Rightarrow> char"
type_synonym block = "char list"

datatype 'a ptr = Null | Live 'a | Invalid

datatype fault = Null_dereference | Invalid_pointer | Out_of_bounds | Integer_overflow

definition INT_MAX :: int where
  "INT_MAX = 2147483647"

definition NUL :: char where
  "NUL = CHR 0x00"

definition CRLF :: string where
  "CRLF = [CHR 0x0D, CHR 0x0A]"

definition cstr :: "string \<Rightarrow> string" where
  "cstr s = takeWhile (\<lambda>c. c \<noteq> NUL) s"

text \<open>\<open>req_t\<close> is declared in requests.h; the fields are those requests.c uses.\<close>

record req_t =
  code :: long
  url :: "string ptr"
  text_r :: "block ptr"
  size_r :: size_t
  req_hdrv :: "string ptr list ptr"
  req_hdrc :: int
  resp_hdrv :: "string ptr list ptr"
  resp_hdrc :: int
  ok :: int

text \<open>
  An easy handle of libcurl is the record of the options set on it. A callback option
  holds the function installed; \<open>WRITEDATA\<close> and \<open>HEADERDATA\<close> are always the one
  context, which the model passes along. A \<open>curl_slist\<close> is the list of its strings,
  and \<open>NULL\<close> is the empty list. \<open>curl_slist_append\<close> adds a copy of the string at the
  end; when its allocation fails (the first argument is \<open>False\<close>) it returns \<open>NULL\<close>.
\<close>

datatype CURLcode = CURLE_OK | CURLE_WRITE_ERROR | CURLE_OUT_OF_MEMORY | CURLE_FAILED nat

type_synonym write_callback =
  "mem option \<Rightarrow> bool \<Rightarrow> mem \<Rightarrow> size_t \<Rightarrow> size_t \<Rightarrow> req_t \<Rightarrow> fault + size_t \<times> req_t"

type_synonym header_callback =
  "bool \<Rightarrow> bool \<Rightarrow> mem \<Rightarrow> size_t \<Rightarrow> size_t \<Rightarrow> req_t \<Rightarrow> fault + size_t \<times> req_t"

record CURL =
  URL :: "string ptr"
  WRITEFUNCTION :: "write_callback option"
  HEADERFUNCTION :: "header_callback option"
  USERAGENT :: "string ptr"
  POSTFIELDS :: "string ptr"
  HTTPHEADER :: "string list"
  CUSTOMREQUEST :: "string ptr"
  POST :: bool

definition curl_slist_append :: "bool \<Rightarrow> string list \<Rightarrow> string \<Rightarrow> string list" where
  "curl_slist_append a slist s = (if a then slist @ [cstr s] else [])"

record utsname =
  sysname :: string
  release :: string

subsection \<open>The verdict\<close>

definition check_ok :: "req_t \<Rightarrow> req_t" where
  "check_ok req =
     (if 400 \<le> sint (code req) \<or> code req = 0 then req\<lparr>ok := 0\<rparr> else req\<lparr>ok := 1\<rparr>)"

subsection \<open>The C library\<close>

text \<open>
  \<open>calloc(1, 1)\<close>: one zeroed byte, or \<open>NULL\<close>. As an array of \<open>char*\<close> a block of one
  byte has no slot.
\<close>

definition calloc_c :: "bool \<Rightarrow> block ptr" where
  "calloc_c a = (if a then Live [NUL] else Null)"

definition calloc_v :: "bool \<Rightarrow> string ptr list ptr" where
  "calloc_v a = (if a then Live [] else Null)"

text \<open>
  \<open>realloc(p, n)\<close> on a block of bytes: \<open>None\<close> is failure (the result is \<open>NULL\<close>), and
  \<open>Some g\<close> is success, the bytes beyond the old contents being read from \<open>g\<close> (they are
  indeterminate).
\<close>

definition realloc_c :: "mem option \<Rightarrow> block ptr \<Rightarrow> nat \<Rightarrow> fault + block ptr" where
  "realloc_c a p n =
     (case p of
        Invalid \<Rightarrow> Inl Invalid_pointer
      | Null \<Rightarrow> Inr (case a of None \<Rightarrow> Null | Some g \<Rightarrow> Live (map g [0..<n]))
      | Live b \<Rightarrow>
          Inr (case a of None \<Rightarrow> Null
               | Some g \<Rightarrow> Live (take n b @ map g [length b..<n])))"

text \<open>\<open>realloc\<close> on an array of \<open>char*\<close>, to \<open>n\<close> slots; a new slot holds no valid pointer.\<close>

definition realloc_v :: "bool \<Rightarrow> string ptr list ptr \<Rightarrow> nat \<Rightarrow> fault + string ptr list ptr" where
  "realloc_v a p n =
     (case p of
        Invalid \<Rightarrow> Inl Invalid_pointer
      | Null \<Rightarrow> Inr (if a then Live (replicate n Invalid) else Null)
      | Live v \<Rightarrow>
          Inr (if a then Live (take n v @ replicate (n - length v) Invalid) else Null))"

fun free_c :: "'a ptr \<Rightarrow> fault + 'a ptr" where
  "free_c Null = Inr Null"
| "free_c (Live v) = Inr Invalid"
| "free_c Invalid = Inl Invalid_pointer"

text \<open>
  \<open>strndup(s, n)\<close>: the bytes of \<open>s\<close> before the first \<open>NUL\<close>, at most \<open>n\<close> of them, in a
  fresh block; \<open>NULL\<close> when the allocation fails.
\<close>

definition strndup_c :: "bool \<Rightarrow> mem \<Rightarrow> nat \<Rightarrow> string ptr" where
  "strndup_c a s n =
     (if a then Live (takeWhile (\<lambda>c. c \<noteq> NUL) (map s [0..<n])) else Null)"

text \<open>\<open>strcmp(s + i, lit) == 0\<close>, for a string literal \<open>lit\<close>.\<close>

fun strcmp_eq :: "mem \<Rightarrow> nat \<Rightarrow> string \<Rightarrow> bool" where
  "strcmp_eq s i [] = (s i = NUL)"
| "strcmp_eq s i (c # cs) = (s i = c \<and> strcmp_eq s (Suc i) cs)"

text \<open>
  \<open>strncat(dest, src, n)\<close>: at most \<open>n\<close> characters of \<open>src\<close> and a terminator are written
  from the first \<open>NUL\<close> of \<open>dest\<close> on. It is a fault when \<open>dest\<close> holds no \<open>NUL\<close> or the
  block is too short for what is written.
\<close>

definition strncat_c :: "block \<Rightarrow> string \<Rightarrow> nat \<Rightarrow> fault + block" where
  "strncat_c dest src n =
     (let p = length (takeWhile (\<lambda>c. c \<noteq> NUL) dest); t = take n src in
      if p = length dest then Inl Out_of_bounds
      else if length dest < p + length t + 1 then Inl Out_of_bounds
      else Inr (take p dest @ t @ [NUL] @ drop (p + length t + 1) dest))"

text \<open>A C string in memory: its characters, then the terminator.\<close>

definition in_memory :: "string \<Rightarrow> mem" where
  "in_memory s i = (if i < length s then s ! i else NUL)"

subsection \<open>Initialisation and release\<close>

text \<open>The loops of \<open>requests_close\<close>: \<open>free(hdrv[i])\<close> for each index of the list.\<close>

fun free_each :: "string ptr list ptr \<Rightarrow> nat list \<Rightarrow> fault + unit" where
  "free_each hdrv [] = Inr ()"
| "free_each hdrv (i # js) =
     (case hdrv of
        Null \<Rightarrow> Inl Null_dereference
      | Invalid \<Rightarrow> Inl Invalid_pointer
      | Live v \<Rightarrow>
          if length v \<le> i then Inl Out_of_bounds
          else (case free_c (v ! i) of Inl f \<Rightarrow> Inl f | Inr _ \<Rightarrow> free_each hdrv js))"

text \<open>
  \<open>requests_close\<close> returns the new value of the global \<open>IS_FIRST\<close> and the context,
  whose pointers now designate freed blocks.
\<close>

definition requests_close :: "req_t \<Rightarrow> fault + int \<times> req_t" where
  "requests_close req =
     (case free_each (resp_hdrv req) [0..<nat (resp_hdrc req)] of
        Inl f \<Rightarrow> Inl f
      | Inr _ \<Rightarrow>
     (case free_each (req_hdrv req) [0..<nat (req_hdrc req)] of
        Inl f \<Rightarrow> Inl f
      | Inr _ \<Rightarrow>
     (case free_c (text_r req) of
        Inl f \<Rightarrow> Inl f
      | Inr t \<Rightarrow>
     (case free_c (resp_hdrv req) of
        Inl f \<Rightarrow> Inl f
      | Inr rv \<Rightarrow>
     (case free_c (req_hdrv req) of
        Inl f \<Rightarrow> Inl f
      | Inr qv \<Rightarrow> Inr (1, req\<lparr>text_r := t, resp_hdrv := rv, req_hdrv := qv\<rparr>))))))"

text \<open>
  \<open>requests_init\<close>: the three \<open>calloc\<close> outcomes and the result of \<open>curl_easy_init()\<close>
  are arguments; the result is the handle returned, \<open>IS_FIRST\<close> and the context.
\<close>

definition requests_init ::
  "bool \<Rightarrow> bool \<Rightarrow> bool \<Rightarrow> 'h ptr \<Rightarrow> int \<Rightarrow> req_t \<Rightarrow> fault + 'h ptr \<times> int \<times> req_t" where
  "requests_init a_text a_req a_resp easy IS_FIRST req =
     (case (if IS_FIRST = 0 then requests_close req else Inr (IS_FIRST, req)) of
        Inl f \<Rightarrow> Inl f
      | Inr (first, r0) \<Rightarrow>
          let r1 = r0\<lparr>code := 0, url := Null, size_r := 0, req_hdrc := 0, resp_hdrc := 0,
                     ok := - 1\<rparr>;
              r2 = r1\<lparr>text_r := calloc_c a_text\<rparr>
          in if text_r r2 = Null then Inr (Null, first, r2)
             else let r3 = r2\<lparr>req_hdrv := calloc_v a_req\<rparr>
               in if req_hdrv r3 = Null then Inr (Null, first, r3)
                  else let r4 = r3\<lparr>resp_hdrv := calloc_v a_resp\<rparr>
                    in if resp_hdrv r4 = Null then Inr (Null, first, r4)
                       else Inr (easy, 0, r4))"

subsection \<open>The callbacks\<close>

text \<open>
  \<open>resp_callback\<close>: the outcomes of \<open>realloc\<close> and of \<open>strndup\<close> are the first two
  arguments. The result is the value returned (\<open>- 1\<close> is \<open>SIZE_MAX\<close>) and the context.
  \<open>strndup(content, real_size + 1)\<close> reads up to the byte after the chunk.
\<close>

definition resp_callback ::
  "mem option \<Rightarrow> bool \<Rightarrow> mem \<Rightarrow> size_t \<Rightarrow> size_t \<Rightarrow> req_t \<Rightarrow> fault + size_t \<times> req_t" where
  "resp_callback a_text a_dup content sz nmemb userdata =
     (let real_size = sz * nmemb in
      case realloc_c a_text (text_r userdata) (unat (size_r userdata + real_size + 1)) of
        Inl f \<Rightarrow> Inl f
      | Inr p \<Rightarrow>
          (case p of
             Null \<Rightarrow> Inr (- 1, userdata\<lparr>text_r := Null\<rparr>)
           | Invalid \<Rightarrow> Inl Invalid_pointer
           | Live buf \<Rightarrow>
               let u = userdata\<lparr>text_r := p, size_r := size_r userdata + real_size\<rparr> in
               (case strndup_c a_dup content (unat (real_size + 1)) of
                  Live responsetext \<Rightarrow>
                    (case strncat_c buf responsetext (unat real_size) of
                       Inl f \<Rightarrow> Inl f
                     | Inr buf' \<Rightarrow> Inr (real_size, u\<lparr>text_r := Live buf'\<rparr>))
                | _ \<Rightarrow> Inr (- 1, u))))"

text \<open>
  \<open>header_callback\<close>: \<open>current_size + sizeof(char*)\<close> bytes are room for
  \<open>resp_hdrc + 1\<close> pointers. \<open>resp_hdrc++\<close> overflows at \<open>INT_MAX\<close>.
\<close>

definition header_callback ::
  "bool \<Rightarrow> bool \<Rightarrow> mem \<Rightarrow> size_t \<Rightarrow> size_t \<Rightarrow> req_t \<Rightarrow> fault + size_t \<times> req_t" where
  "header_callback a_hdrv a_dup content sz nmemb userdata =
     (let real_size = sz * nmemb in
      if strcmp_eq content 0 CRLF then Inr (real_size, userdata)
      else
        (case realloc_v a_hdrv (resp_hdrv userdata) (nat (resp_hdrc userdata + 1)) of
           Inl f \<Rightarrow> Inl f
         | Inr p \<Rightarrow>
             (case p of
                Null \<Rightarrow> Inr (- 1, userdata\<lparr>resp_hdrv := Null\<rparr>)
              | Invalid \<Rightarrow> Inl Invalid_pointer
              | Live v \<Rightarrow>
                  if INT_MAX \<le> resp_hdrc userdata then Inl Integer_overflow
                  else
                  let c = resp_hdrc userdata + 1 in
                  if c - 1 < 0 \<or> length v \<le> nat (c - 1) then Inl Out_of_bounds
                  else Inr (real_size,
                         userdata\<lparr>resp_hdrv :=
                                    Live (v[nat (c - 1) :=
                                      strndup_c a_dup content (unat (sz * nmemb + 1))]),
                                  resp_hdrc := c\<rparr>))))"

subsection \<open>The transport engine\<close>

text \<open>
  Modelled from the spec: \<open>curl_easy_perform\<close> and \<open>curl_easy_getinfo\<close> are libcurl's,
  outside the sources. An exchange is what the engine does with a handle: it invokes
  the body callback zero or more times with \<open>(chunk, elementSize, elementCount)\<close> and
  the header callback once per header line, the blank line included, then reports a
  transport outcome and a numeric status code. A delivery carries the outcomes of the
  allocations its callback makes. As libcurl documents, a callback that returns another
  count than it was passed aborts the transfer with a write error.
\<close>

datatype delivery =
  Body "mem option" bool mem size_t size_t
| Header bool bool mem size_t size_t

record exchange =
  deliveries :: "delivery list"
  outcome :: CURLcode
  response_code :: long

type_synonym engine = "CURL \<Rightarrow> exchange"

fun passed :: "delivery \<Rightarrow> size_t" where
  "passed (Body a d content sz nmemb) = sz * nmemb"
| "passed (Header a d content sz nmemb) = sz * nmemb"

fun deliver :: "CURL \<Rightarrow> delivery \<Rightarrow> req_t \<Rightarrow> fault + size_t \<times> req_t" where
  "deliver h (Body a d content sz nmemb) r =
     (case WRITEFUNCTION h of
        None \<Rightarrow> Inr (sz * nmemb, r)
      | Some f \<Rightarrow> f a d content sz nmemb r)"
| "deliver h (Header a d content sz nmemb) r =
     (case HEADERFUNCTION h of
        None \<Rightarrow> Inr (sz * nmemb, r)
      | Some f \<Rightarrow> f a d content sz nmemb r)"

fun transfer :: "CURL \<Rightarrow> delivery list \<Rightarrow> req_t \<Rightarrow> fault + bool \<times> req_t" where
  "transfer h [] r = Inr (True, r)"
| "transfer h (d # ds) r =
     (case deliver h d r of
        Inl f \<Rightarrow> Inl f
      | Inr (n, r') \<Rightarrow> if n = passed d then transfer h ds r' else Inr (False, r'))"

definition curl_easy_perform :: "engine \<Rightarrow> CURL \<Rightarrow> req_t \<Rightarrow> fault + CURLcode \<times> req_t" where
  "curl_easy_perform e h r =
     (case transfer h (deliveries (e h)) r of
        Inl f \<Rightarrow> Inl f
      | Inr (done, r') \<Rightarrow> Inr (if done then outcome (e h) else CURLE_WRITE_ERROR, r'))"

subsection \<open>The pipelines\<close>

text \<open>\<open>snprintf(buf, n, ...)\<close> leaves in \<open>buf\<close> the first \<open>n - 1\<close> characters of the output.\<close>

definition snprintf_c :: "nat \<Rightarrow> string \<Rightarrow> string" where
  "snprintf_c n s = take (n - 1) s"

definition user_agent :: "bool \<Rightarrow> utsname \<Rightarrow> string ptr" where
  "user_agent a name =
     (let basic = ''librequests/0.1''; kernel = cstr (sysname name);
          version = cstr (release name);
          ua_size = 3 + (length basic + length kernel + length version)
      in if a then Live (snprintf_c ua_size (basic @ '' '' @ kernel @ ''/'' @ version))
         else Null)"

definition common_opt :: "CURL \<Rightarrow> req_t \<Rightarrow> CURL" where
  "common_opt curl req =
     curl\<lparr>URL := url req, WRITEFUNCTION := Some resp_callback,
          HEADERFUNCTION := Some header_callback\<rparr>"

text \<open>
  Each pipeline is written in two parts: the statements before \<open>curl_easy_perform\<close>,
  which set the options, and the function itself, which performs the transfer with
  them. A pipeline returns the outcome code, the options in force when it returned,
  and the context.
\<close>

definition requests_get_options :: "bool \<Rightarrow> utsname \<Rightarrow> CURL \<Rightarrow> req_t \<Rightarrow> CURL" where
  "requests_get_options a_ua name curl req =
     (let ua = user_agent a_ua name in
      (common_opt curl req)\<lparr>WRITEFUNCTION := Some resp_callback, USERAGENT := ua\<rparr>)"

definition requests_get ::
  "bool \<Rightarrow> utsname \<Rightarrow> engine \<Rightarrow> CURL \<Rightarrow> req_t \<Rightarrow> string ptr \<Rightarrow> fault + CURLcode \<times> CURL \<times> req_t"
  where
  "requests_get a_ua name e curl req url' =
     (let req1 = req\<lparr>url := url'\<rparr>;
          curl1 = requests_get_options a_ua name curl req1
      in case curl_easy_perform e curl1 req1 of
           Inl f \<Rightarrow> Inl f
         | Inr (rc, req2) \<Rightarrow>
             if rc \<noteq> CURLE_OK then Inr (rc, curl1, req2)
             else Inr (rc, curl1, check_ok (req2\<lparr>code := response_code (e curl1)\<rparr>)))"

text \<open>
  The loop over the custom headers of \<open>requests_pt\<close>, for the indices of the list.
  \<open>a_slist i\<close>, \<open>a_hdrv i\<close> and \<open>a_dup i\<close> are the outcomes of the allocations of
  \<open>curl_slist_append\<close>, \<open>realloc\<close> and \<open>strndup\<close> at index \<open>i\<close>. The result is \<open>False\<close>
  when a \<open>realloc\<close> failed (the function then returns \<open>CURLE_OUT_OF_MEMORY\<close>), with the
  list of outgoing headers and the context. \<open>req_hdrc++\<close> overflows at \<open>INT_MAX\<close>.
\<close>

fun pt_headers ::
  "(nat \<Rightarrow> bool) \<Rightarrow> (nat \<Rightarrow> bool) \<Rightarrow> (nat \<Rightarrow> bool) \<Rightarrow> string list ptr \<Rightarrow> nat list
    \<Rightarrow> string list \<Rightarrow> req_t \<Rightarrow> fault + bool \<times> string list \<times> req_t" where
  "pt_headers a_slist a_hdrv a_dup custom_hdrv [] slist req = Inr (True, slist, req)"
| "pt_headers a_slist a_hdrv a_dup custom_hdrv (i # js) slist req =
     (case custom_hdrv of
        Null \<Rightarrow> Inl Null_dereference
      | Invalid \<Rightarrow> Inl Invalid_pointer
      | Live hv \<Rightarrow>
          if length hv \<le> i then Inl Out_of_bounds
          else
            let slist' = curl_slist_append (a_slist i) slist (hv ! i) in
            (case realloc_v (a_hdrv i) (req_hdrv req) (nat (req_hdrc req + 1)) of
               Inl f \<Rightarrow> Inl f
             | Inr p \<Rightarrow>
                 (case p of
                    Null \<Rightarrow> Inr (False, slist', req\<lparr>req_hdrv := Null\<rparr>)
                  | Invalid \<Rightarrow> Inl Invalid_pointer
                  | Live v \<Rightarrow>
                      if INT_MAX \<le> req_hdrc req then Inl Integer_overflow
                      else
                      let c = req_hdrc req + 1 in
                      if c - 1 < 0 \<or> length v \<le> nat (c - 1) then Inl Out_of_bounds
                      else pt_headers a_slist a_hdrv a_dup custom_hdrv js slist'
                             (req\<lparr>req_hdrv :=
                                    Live (v[nat (c - 1) :=
                                      strndup_c (a_dup i) (in_memory (hv ! i))
                                        (length (cstr (hv ! i)))]),
                                  req_hdrc := c\<rparr>))))"

text \<open>
  The statements of \<open>requests_pt\<close> before \<open>curl_easy_perform\<close>. \<open>a_cl\<close> is the outcome of
  the allocation of \<open>curl_slist_append(slist, "Content-Length: 0")\<close>. The result is
  \<open>False\<close> when the function returns \<open>CURLE_OUT_OF_MEMORY\<close> from the loop, and \<open>True\<close>
  when the options are set and the transfer is performed next.
\<close>

definition requests_pt_options ::
  "bool \<Rightarrow> utsname \<Rightarrow> bool \<Rightarrow> (nat \<Rightarrow> bool) \<Rightarrow> (nat \<Rightarrow> bool) \<Rightarrow> (nat \<Rightarrow> bool) \<Rightarrow> CURL \<Rightarrow> req_t
    \<Rightarrow> string ptr \<Rightarrow> string ptr \<Rightarrow> string list ptr \<Rightarrow> int \<Rightarrow> int
    \<Rightarrow> fault + bool \<times> CURL \<times> req_t"
  where
  "requests_pt_options a_ua name a_cl a_slist a_hdrv a_dup curl req url' data custom_hdrv
       custom_hdrc put_flag =
     (let ua = user_agent a_ua name;
          req1 = req\<lparr>url := url'\<rparr>;
          slist1 = (if data \<noteq> Null then []
                    else curl_slist_append a_cl [] ''Content-Length: 0'');
          curl1 = (if data \<noteq> Null then curl\<lparr>POSTFIELDS := data\<rparr>
                   else if custom_hdrv = Null then curl\<lparr>HTTPHEADER := slist1\<rparr>
                   else curl)
      in case (if custom_hdrv \<noteq> Null
               then pt_headers a_slist a_hdrv a_dup custom_hdrv [0..<nat custom_hdrc] slist1
                      req1
               else Inr (True, slist1, req1)) of
           Inl f \<Rightarrow> Inl f
         | Inr (completed, slist2, req2) \<Rightarrow>
             if \<not> completed then Inr (False, curl1, req2)
             else
               let curl2 = (if custom_hdrv \<noteq> Null then curl1\<lparr>HTTPHEADER := slist2\<rparr>
                            else curl1);
                   curl3 = common_opt curl2 req2;
                   curl4 = (if put_flag \<noteq> 0 then curl3\<lparr>CUSTOMREQUEST := Live ''PUT''\<rparr>
                            else curl3\<lparr>POST := True\<rparr>)
               in Inr (True, curl4\<lparr>USERAGENT := ua\<rparr>, req2))"

definition requests_pt ::
  "bool \<Rightarrow> utsname \<Rightarrow> bool \<Rightarrow> (nat \<Rightarrow> bool) \<Rightarrow> (nat \<Rightarrow> bool) \<Rightarrow> (nat \<Rightarrow> bool) \<Rightarrow> engine \<Rightarrow> CURL
    \<Rightarrow> req_t \<Rightarrow> string ptr \<Rightarrow> string ptr \<Rightarrow> string list ptr \<Rightarrow> int \<Rightarrow> int
    \<Rightarrow> fault + CURLcode \<times> CURL \<times> req_t"
  where
  "requests_pt a_ua name a_cl a_slist a_hdrv a_dup e curl req url' data custom_hdrv custom_hdrc
       put_flag =
     (case requests_pt_options a_ua name a_cl a_slist a_hdrv a_dup curl req url' data
             custom_hdrv custom_hdrc put_flag of
        Inl f \<Rightarrow> Inl f
      | Inr (ready, curl5, req2) \<Rightarrow>
          if \<not> ready then Inr (CURLE_OUT_OF_MEMORY, curl5, req2)
          else
            (case curl_easy_perform e curl5 req2 of
               Inl f \<Rightarrow> Inl f
             | Inr (rc, req3) \<Rightarrow>
                 if rc \<noteq> CURLE_OK then Inr (rc, curl5, req3)
                 else Inr (rc, curl5, check_ok (req3\<lparr>code := response_code (e curl5)\<rparr>))))"

definition requests_post ::
  "bool \<Rightarrow> utsname \<Rightarrow> bool \<Rightarrow> (nat \<Rightarrow> bool) \<Rightarrow> (nat \<Rightarrow> bool) \<Rightarrow> (nat \<Rightarrow> bool) \<Rightarrow> engine \<Rightarrow> CURL
    \<Rightarrow> req_t \<Rightarrow> string ptr \<Rightarrow> string ptr \<Rightarrow> fault + CURLcode \<times> CURL \<times> req_t" where
  "requests_post a_ua name a_cl a_slist a_hdrv a_dup e curl req url' data =
     requests_pt a_ua name a_cl a_slist a_hdrv a_dup e curl req url' data Null 0 0"

definition requests_put ::
  "bool \<Rightarrow> utsname \<Rightarrow> bool \<Rightarrow> (nat \<Rightarrow> bool) \<Rightarrow> (nat \<Rightarrow> bool) \<Rightarrow> (nat \<Rightarrow> bool) \<Rightarrow> engine \<Rightarrow> CURL
    \<Rightarrow> req_t \<Rightarrow> string ptr \<Rightarrow> string ptr \<Rightarrow> fault + CURLcode \<times> CURL \<times> req_t" where
  "requests_put a_ua name a_cl a_slist a_hdrv a_dup e curl req url' data =
     requests_pt a_ua name a_cl a_slist a_hdrv a_dup e curl req url' data Null 0 1"

definition requests_post_headers ::
  "bool \<Rightarrow> utsname \<Rightarrow> bool \<Rightarrow> (nat \<Rightarrow> bool) \<Rightarrow> (nat \<Rightarrow> bool) \<Rightarrow> (nat \<Rightarrow> bool) \<Rightarrow> engine \<Rightarrow> CURL
    \<Rightarrow> req_t \<Rightarrow> string ptr \<Rightarrow> string ptr \<Rightarrow> string list ptr \<Rightarrow> int
    \<Rightarrow> fault + CURLcode \<times> CURL \<times> req_t" where
  "requests_post_headers a_ua name a_cl a_slist a_hdrv a_dup e curl req url' data hdrv hdrc =
     requests_pt a_ua name a_cl a_slist a_hdrv a_dup e curl req url' data hdrv hdrc 0"

definition requests_put_headers ::
  "bool \<Rightarrow> utsname \<Rightarrow> bool \<Rightarrow> (nat \<Rightarrow> bool) \<Rightarrow> (nat \<Rightarrow> bool) \<Rightarrow> (nat \<Rightarrow> bool) \<Rightarrow> engine \<Rightarrow> CURL
    \<Rightarrow> req_t \<Rightarrow> string ptr \<Rightarrow> string ptr \<Rightarrow> string list ptr \<Rightarrow> int
    \<Rightarrow> fault + CURLcode \<times> CURL \<times> req_t" where
  "requests_put_headers a_ua name a_cl a_slist a_hdrv a_dup e curl req url' data hdrv hdrc =
     requests_pt a_ua name a_cl a_slist a_hdrv a_dup e curl req url' data hdrv hdrc 1"

subsection \<open>The encoder\<close>

text \<open>C's \<open>%\<close> truncates towards zero.\<close>

definition c_rem :: "int \<Rightarrow> int \<Rightarrow> int" where
  "c_rem a b = sgn a * (\<bar>a\<bar> mod \<bar>b\<bar>)"

text \<open>\<open>strlen\<close> on a block: a fault when the block holds no terminator.\<close>

definition strlen_c :: "block \<Rightarrow> fault + nat" where
  "strlen_c b =
     (let p = length (takeWhile (\<lambda>c. c \<noteq> NUL) b) in
      if p = length b then Inl Out_of_bounds else Inr p)"

text \<open>The first loop of \<open>requests_url_encode\<close>, for the indices of the list.\<close>

fun sum_lengths :: "string list \<Rightarrow> nat list \<Rightarrow> size_t \<Rightarrow> fault + size_t" where
  "sum_lengths data [] total_size = Inr total_size"
| "sum_lengths data (i # js) total_size =
     (if length data \<le> i then Inl Out_of_bounds
      else sum_lengths data js (total_size + of_nat (length (cstr (data ! i)))))"

text \<open>The second loop, from index \<open>i\<close> on, in steps of two.\<close>

function assemble :: "string list \<Rightarrow> int \<Rightarrow> int \<Rightarrow> block \<Rightarrow> fault + block" where
  "assemble data data_size i encoded =
     (if i < data_size then
        (if i < 0 \<or> length data \<le> nat (i + 1) then Inl Out_of_bounds
         else
           let key = cstr (data ! nat i); val = cstr (data ! nat (i + 1));
               offset = (if i = 0 then 2 else 3);
               term_size = length key + length val + offset;
               term = (if i = 0 then snprintf_c term_size (key @ ''='' @ val)
                       else snprintf_c term_size (''&'' @ key @ ''='' @ val))
           in case strncat_c encoded term (length term) of
                Inl f \<Rightarrow> Inl f
              | Inr encoded' \<Rightarrow> assemble data data_size (i + 2) encoded')
      else Inr encoded)"
  by pat_completeness auto
termination
  by (relation "measure (\<lambda>(data, data_size, i, encoded). nat (data_size - i))") auto

declare assemble.simps [simp del]

text \<open>
  \<open>requests_url_encode\<close>: \<open>curl_easy_escape\<close> is the percent-encoding collaborator, and
  \<open>junk\<close> is what the array \<open>encoded\<close> holds when it is declared. The array has
  \<open>total_size\<close> bytes.
\<close>

definition requests_url_encode ::
  "(string \<Rightarrow> string ptr) \<Rightarrow> mem \<Rightarrow> string list \<Rightarrow> int \<Rightarrow> fault + string ptr" where
  "requests_url_encode curl_easy_escape junk data data_size =
     (if c_rem data_size 2 \<noteq> 0 then Inr Null
      else
        (case sum_lengths data [0..<nat data_size] 0 of
           Inl f \<Rightarrow> Inl f
         | Inr total_size \<Rightarrow>
             let encoded0 = map junk [0..<unat total_size];
                 encoded1 = (if 0 < unat total_size then encoded0[0 := NUL] else encoded0)
             in (case assemble data data_size 0 encoded1 of
                   Inl f \<Rightarrow> Inl f
                 | Inr encoded \<Rightarrow>
                     (case strlen_c encoded of
                        Inl f \<Rightarrow> Inl f
                      | Inr n \<Rightarrow> Inr (curl_easy_escape (take n encoded))))))"

section \<open>Notions of the specification\<close>

text \<open>
  The bytes a delivery hands over are the first \<open>size\<close> times \<open>nmemb\<close> bytes at
  \<open>content\<close>; \<open>body_chunks\<close> and \<open>header_lines\<close> are those of the body and of the
  header deliveries of an exchange, in delivery order.
\<close>

fun chunk :: "delivery \<Rightarrow> string" where
  "chunk (Body a d content sz nmemb) = map content [0..<unat sz * unat nmemb]"
| "chunk (Header a d content sz nmemb) = map content [0..<unat sz * unat nmemb]"

fun body_chunks :: "delivery list \<Rightarrow> string list" where
  "body_chunks [] = []"
| "body_chunks (Body a d content sz nmemb # ds) =
     chunk (Body a d content sz nmemb) # body_chunks ds"
| "body_chunks (Header a d content sz nmemb # ds) = body_chunks ds"

fun header_lines :: "delivery list \<Rightarrow> string list" where
  "header_lines [] = []"
| "header_lines (Body a d content sz nmemb # ds) = header_lines ds"
| "header_lines (Header a d content sz nmemb # ds) =
     chunk (Header a d content sz nmemb) # header_lines ds"

text \<open>The sum, in \<open>size_t\<close>, of the byte counts passed to the body callback.\<close>

fun body_total :: "delivery list \<Rightarrow> size_t" where
  "body_total [] = 0"
| "body_total (Body a d content sz nmemb # ds) = sz * nmemb + body_total ds"
| "body_total (Header a d content sz nmemb # ds) = body_total ds"

text \<open>No allocation of the delivery's callback fails.\<close>

fun allocated :: "delivery \<Rightarrow> bool" where
  "allocated (Body a d content sz nmemb) = (a \<noteq> None \<and> d)"
| "allocated (Header a d content sz nmemb) = (a \<and> d)"


text \<open>
  The plaintext of the encoder: \<open>k1=v1&k2=v2&...&kn=vn\<close>, with no trailing separator.
\<close>

fun more_pairs :: "string list \<Rightarrow> string" where
  "more_pairs (k # v # rest) = ''&'' @ cstr k @ ''='' @ cstr v @ more_pairs rest"
| "more_pairs rest = []"

fun plaintext :: "string list \<Rightarrow> string" where
  "plaintext (k # v # rest) = cstr k @ ''='' @ cstr v @ more_pairs rest"
| "plaintext rest = []"

subsection \<open>Example values\<close>

text \<open>An easy handle with no option set, and a context that was never initialised.\<close>

definition fresh_curl :: CURL where
  "fresh_curl = \<lparr>URL = Null, WRITEFUNCTION = None, HEADERFUNCTION = None, USERAGENT = Null,
     POSTFIELDS = Null, HTTPHEADER = [], CUSTOMREQUEST = Null, POST = False\<rparr>"

definition raw_req :: req_t where
  "raw_req = \<lparr>code = 0, url = Invalid, text_r = Invalid, size_r = 0, req_hdrv = Invalid,
     req_hdrc = 0, resp_hdrv = Invalid, resp_hdrc = 0, ok = 0\<rparr>"

text \<open>The context as a successful \<open>requests_init\<close> leaves it.\<close>

definition ready_req :: req_t where
  "ready_req = \<lparr>code = 0, url = Null, text_r = Live [NUL], size_r = 0, req_hdrv = Live [],
     req_hdrc = 0, resp_hdrv = Live [], resp_hdrc = 0, ok = - 1\<rparr>"

definition linux :: utsname where
  "linux = \<lparr>sysname = ''Linux'', release = ''6.1''\<rparr>"

section \<open>Properties\<close>

subsection \<open>The verdict\<close>

lemma check_ok_fields:
  "code (check_ok req) = code req" "text_r (check_ok req) = text_r req"
  "size_r (check_ok req) = size_r req"
  by (simp_all add: check_ok_def)

text \<open>
  C3, as stated: for every status code the verdict is ok iff \<open>0 < statusCode < 400\<close>.
  It fails at a negative status code: \<open>-1\<close> is neither \<open>\<ge> 400\<close> nor \<open>0\<close>, so the
  verdict is ok.
\<close>

theorem check_ok_negative_counterexample:
  "\<not> (ok (check_ok \<lparr>code = - 1, url = Null, text_r = Null, size_r = 0, req_hdrv = Null,
        req_hdrc = 0, resp_hdrv = Null, resp_hdrc = 0, ok = - 1\<rparr>) = 1
      \<longleftrightarrow> 0 < sint (- 1 :: long) \<and> sint (- 1 :: long) < 400)"
  by (simp add: check_ok_def)

text \<open>
  C3, amended: after \<open>check_ok\<close> the verdict is 1 (ok) iff the status code is not 0 and
  is below 400, and it is 0 (not ok) otherwise; so for every status code that is not
  negative it is ok iff \<open>0 < statusCode < 400\<close>. 200 gives ok; 404, 500 and 0 give not ok.
\<close>

theorem check_ok_verdict:
  "(ok (check_ok req) = 1 \<longleftrightarrow> code req \<noteq> 0 \<and> sint (code req) < 400)
   \<and> (ok (check_ok req) = 0 \<longleftrightarrow> \<not> (code req \<noteq> 0 \<and> sint (code req) < 400))
   \<and> (0 \<le> sint (code req) \<longrightarrow>
        (ok (check_ok req) = 1 \<longleftrightarrow> 0 < sint (code req) \<and> sint (code req) < 400))
   \<and> ok (check_ok (req\<lparr>code := 200\<rparr>)) = 1
   \<and> ok (check_ok (req\<lparr>code := 404\<rparr>)) = 0
   \<and> ok (check_ok (req\<lparr>code := 500\<rparr>)) = 0
   \<and> ok (check_ok (req\<lparr>code := 0\<rparr>)) = 0"
proof -
  have z: "sint (code req) = 0 \<longleftrightarrow> code req = 0"
    by (metis signed_0 signed_word_eqI)
  have "0 \<le> sint (code req) \<Longrightarrow> code req \<noteq> 0 \<Longrightarrow> 0 < sint (code req)"
    using z by linarith
  then show ?thesis
    by (auto simp add: check_ok_def)
qed

theorem check_ok_verdict_witness:
  "0 \<le> sint (302 :: long)
   \<and> ok (check_ok \<lparr>code = 302, url = Null, text_r = Null, size_r = 0, req_hdrv = Null,
        req_hdrc = 0, resp_hdrv = Null, resp_hdrc = 0, ok = - 1\<rparr>) = 1
   \<and> 0 < sint (302 :: long) \<and> sint (302 :: long) < 400"
  using check_ok_verdict [of "\<lparr>code = 302, url = Null, text_r = Null, size_r = 0,
      req_hdrv = Null, req_hdrc = 0, resp_hdrv = Null, resp_hdrc = 0, ok = - 1\<rparr>"]
  by simp


subsection \<open>The callbacks, one invocation\<close>

lemma resp_callback_frame:
  "resp_callback a d content sz nmemb r = Inr (n, r') \<Longrightarrow>
     code r' = code r \<and> ok r' = ok r \<and> resp_hdrv r' = resp_hdrv r \<and> resp_hdrc r' = resp_hdrc r
     \<and> req_hdrv r' = req_hdrv r \<and> req_hdrc r' = req_hdrc r \<and> url r' = url r"
  by (auto simp add: resp_callback_def Let_def split: sum.splits ptr.splits)

lemma header_callback_frame:
  "header_callback a d content sz nmemb r = Inr (n, r') \<Longrightarrow>
     code r' = code r \<and> ok r' = ok r \<and> text_r r' = text_r r \<and> size_r r' = size_r r
     \<and> req_hdrv r' = req_hdrv r \<and> req_hdrc r' = req_hdrc r \<and> url r' = url r"
  by (auto simp add: header_callback_def Let_def split: sum.splits ptr.splits if_splits)

lemma resp_callback_returns:
  "resp_callback (Some g) True content sz nmemb r = Inr (n, r') \<Longrightarrow>
     n = sz * nmemb \<and> size_r r' = size_r r + sz * nmemb"
  by (auto simp add: resp_callback_def realloc_c_def strndup_c_def Let_def split: sum.splits ptr.splits)

lemma header_callback_returns:
  "header_callback True d content sz nmemb r = Inr (n, r') \<Longrightarrow> n = sz * nmemb"
  by (auto simp add: header_callback_def realloc_v_def Let_def split: sum.splits ptr.splits if_splits)

lemma header_callback_sentinel:
  "strcmp_eq content 0 CRLF \<Longrightarrow> header_callback a d content sz nmemb r = Inr (sz * nmemb, r)"
  by (simp add: header_callback_def)

lemma requests_init_fields:
  "requests_init a1 a2 a3 easy first req = Inr (hnd, first', r) \<Longrightarrow>
     size_r r = 0 \<and> code r = 0 \<and> ok r = - 1 \<and> resp_hdrc r = 0 \<and> req_hdrc r = 0 \<and> url r = Null"
  by (auto simp add: requests_init_def Let_def split: sum.splits if_splits prod.splits)

lemma requests_init_buffers:
  "requests_init a1 a2 a3 easy first req = Inr (Live hnd, first', r) \<Longrightarrow>
     text_r r = Live [NUL] \<and> resp_hdrv r = Live [] \<and> req_hdrv r = Live []"
  by (auto simp add: requests_init_def Let_def calloc_c_def calloc_v_def split: sum.splits if_splits prod.splits)



subsection \<open>The body buffer\<close>

lemma requests_init_ready:
  "requests_init True True True (Live fresh_curl) 1 raw_req = Inr (Live fresh_curl, 0, ready_req)"
  by (simp add: requests_init_def raw_req_def ready_req_def calloc_c_def calloc_v_def)

lemma common_opt_sinks:
  "WRITEFUNCTION (common_opt curl req) = Some resp_callback"
  "HEADERFUNCTION (common_opt curl req) = Some header_callback"
  by (simp_all add: common_opt_def)

text \<open>
  C1: the claim is that for every sequence of body deliveries, chunks with embedded zero
  bytes included, the accumulated buffer is the concatenation of the chunks. The code
  reserves \<open>size + real_size + 1\<close> bytes and adds \<open>real_size\<close> to \<open>size\<close>, but it copies
  the chunk with \<open>strndup\<close> and \<open>strncat\<close>, which stop at the first zero byte. From the
  context a successful \<open>requests_init\<close> leaves, with no allocation failing, the chunks
  \<open>a\<close>, 0, \<open>b\<close> and \<open>c\<close> are both consumed in full and leave \<open>a\<close>, \<open>c\<close>, 0 in the first
  bytes of the buffer, followed by what \<open>realloc\<close> happened to hand out, with a \<open>size\<close>
  of 4; the concatenation of the chunks is \<open>a\<close>, 0, \<open>b\<close>, \<open>c\<close>.
\<close>

theorem body_embedded_zero_truncated:
  "transfer (common_opt fresh_curl ready_req)
     [Body (Some (\<lambda>_. CHR ''b'')) True (in_memory [CHR ''a'', NUL, CHR ''b'']) 1 3,
      Body (Some (\<lambda>_. CHR ''b'')) True (in_memory ''c'') 1 1] ready_req
   = Inr (True, ready_req\<lparr>text_r := Live [CHR ''a'', CHR ''c'', NUL, CHR ''b'', CHR ''b''],
                         size_r := 4\<rparr>)
   \<and> concat (body_chunks
     [Body (Some (\<lambda>_. CHR ''b'')) True (in_memory [CHR ''a'', NUL, CHR ''b'']) 1 3,
      Body (Some (\<lambda>_. CHR ''b'')) True (in_memory ''c'') 1 1])
   = [CHR ''a'', NUL, CHR ''b'', CHR ''c'']"
  by code_simp

subsection \<open>The body length\<close>

lemma unat_size_sum:
  fixes x y :: size_t
  assumes "unat x + unat y + 1 < 2 ^ 64"
  shows "unat (x + y + 1) = unat x + unat y + 1" and "unat (y + 1) = unat y + 1"
    and "unat (x + y) = unat x + unat y"
proof -
  show xy: "unat (x + y) = unat x + unat y"
    using assms by (simp add: unat_add_lem [THEN iffD1])
  show "unat (y + 1) = unat y + 1"
    using assms by (simp add: unat_add_lem [THEN iffD1])
  show "unat (x + y + 1) = unat x + unat y + 1"
    using assms xy by (simp add: unat_add_lem [THEN iffD1])
qed

lemma unat_product:
  fixes x y :: size_t
  assumes "unat x * unat y < 2 ^ 64"
  shows "unat (x * y) = unat x * unat y"
  using assms by (simp add: unat_mult_lem [THEN iffD1])

lemma strlen_in_block:
  assumes "NUL \<in> set buf"
  shows "length (takeWhile (\<lambda>c. c \<noteq> NUL) (buf @ junk)) < length buf"
proof -
  have "takeWhile (\<lambda>c. c \<noteq> NUL) (buf @ junk) = takeWhile (\<lambda>c. c \<noteq> NUL) buf"
    using assms by (intro takeWhile_append1 [of NUL]) simp_all
  moreover have "length (takeWhile (\<lambda>c. c \<noteq> NUL) buf) < length buf"
    using assms by (induction buf) auto
  ultimately show ?thesis by simp
qed

lemma strncat_c_fits:
  assumes "NUL \<in> set buf" and "length t \<le> k" and "length junk = k"
  shows "\<exists>buf'. strncat_c (buf @ junk) t k = Inr buf' \<and> length buf' = length buf + k
           \<and> NUL \<in> set buf'"
proof -
  define p where "p = length (takeWhile (\<lambda>c. c \<noteq> NUL) (buf @ junk))"
  have p: "p < length buf"
    unfolding p_def by (rule strlen_in_block [OF assms(1)])
  have t: "take k t = t"
    using assms(2) by simp
  have "strncat_c (buf @ junk) t k
          = Inr (take p (buf @ junk) @ t @ [NUL] @ drop (p + length t + 1) (buf @ junk))"
    using p assms(2,3) unfolding strncat_c_def Let_def p_def [symmetric] t by simp
  moreover have "length (take p (buf @ junk) @ t @ [NUL] @ drop (p + length t + 1) (buf @ junk))
                   = length buf + k"
    using p assms(2,3) by simp
  ultimately show ?thesis by auto
qed

lemma resp_callback_total:
  assumes buf: "text_r r = Live buf" and len: "length buf = unat (size_r r) + 1"
    and nul: "NUL \<in> set buf"
    and bound: "unat (size_r r) + unat (sz * nmemb) + 1 < 2 ^ 64"
  shows "\<exists>r' buf'. resp_callback (Some g) True content sz nmemb r = Inr (sz * nmemb, r')
           \<and> text_r r' = Live buf' \<and> length buf' = unat (size_r r') + 1 \<and> NUL \<in> set buf'
           \<and> unat (size_r r') = unat (size_r r) + unat (sz * nmemb)
           \<and> resp_hdrv r' = resp_hdrv r \<and> resp_hdrc r' = resp_hdrc r"
proof -
  define k where "k = unat (sz * nmemb)"
  note u = unat_size_sum [OF bound]
  define junk where "junk = map g [length buf..<length buf + k]"
  have junk: "length junk = k"
    by (simp add: junk_def)
  define t where "t = take k (takeWhile (\<lambda>c. c \<noteq> NUL) (map content [0..<Suc k]))"
  have r: "realloc_c (Some g) (text_r r) (length buf + k) = Inr (Live (buf @ junk))"
    by (simp add: realloc_c_def buf junk_def)
  have d: "strndup_c True content (Suc k)
             = Live (takeWhile (\<lambda>c. c \<noteq> NUL) (map content [0..<Suc k]))"
    by (simp add: strndup_c_def)
  have cat_t: "strncat_c (buf @ junk) (takeWhile (\<lambda>c. c \<noteq> NUL) (map content [0..<Suc k])) k
                 = strncat_c (buf @ junk) t k"
    by (simp add: strncat_c_def t_def)
  obtain buf' where buf': "strncat_c (buf @ junk) t k = Inr buf'"
    "length buf' = length buf + k" "NUL \<in> set buf'"
    using strncat_c_fits [OF nul _ junk, of t] by (auto simp add: t_def)
  have sizes: "unat (size_r r + sz * nmemb + 1) = length buf + k"
    "unat (sz * nmemb + 1) = Suc k" "unat (size_r r + sz * nmemb) = unat (size_r r) + k"
    using u len by (simp_all add: k_def)
  show ?thesis
    unfolding resp_callback_def Let_def sizes
    using r d cat_t buf' sizes(3) len by (simp add: k_def)
qed

lemma realloc_v_grow:
  "realloc_v True (Live hs) (Suc (length hs)) = Inr (Live (hs @ [Invalid]))"
  by (simp add: realloc_v_def)

lemma header_callback_stores:
  assumes "resp_hdrv r = Live hs" and "resp_hdrc r = int (length hs)"
    and "int (length hs) < INT_MAX"
  shows "header_callback True d content sz nmemb r
           = Inr (sz * nmemb,
                if strcmp_eq content 0 CRLF then r
                else r\<lparr>resp_hdrv := Live (hs @ [strndup_c d content (unat (sz * nmemb + 1))]),
                       resp_hdrc := int (length hs) + 1\<rparr>)"
proof -
  have n: "nat (int (length hs) + 1) = Suc (length hs)" by simp
  show ?thesis
    unfolding header_callback_def Let_def assms(1,2) n realloc_v_grow
    using assms(3) by simp
qed

text \<open>
  The invariant of a transfer: \<open>text\<close> is a block of \<open>size + 1\<close> bytes that holds a
  terminator, and \<open>resp_hdrv\<close> is an array of \<open>resp_hdrc\<close> pointers. While no allocation
  fails, the body with its terminator fits \<open>size_t\<close> and the header lines are at most
  \<open>INT_MAX\<close>, every delivery is consumed in full.
\<close>

lemma transfer_total:
  assumes "WRITEFUNCTION h = Some resp_callback" "HEADERFUNCTION h = Some header_callback"
  shows "text_r r = Live buf \<Longrightarrow> length buf = unat (size_r r) + 1 \<Longrightarrow> NUL \<in> set buf \<Longrightarrow>
         resp_hdrv r = Live hs \<Longrightarrow> resp_hdrc r = int (length hs) \<Longrightarrow>
         \<forall>d\<in>set ds. allocated d \<Longrightarrow>
         unat (size_r r) + length (concat (body_chunks ds)) + 1 < 2 ^ 64 \<Longrightarrow>
         int (length hs + length (header_lines ds)) \<le> INT_MAX \<Longrightarrow>
         \<exists>r'. transfer h ds r = Inr (True, r')
            \<and> unat (size_r r') = unat (size_r r) + length (concat (body_chunks ds))"
proof (induction ds arbitrary: r buf hs)
  case Nil
  then show ?case by simp
next
  case (Cons x ds)
  show ?case
  proof (cases x)
    case (Body a d content sz nmemb)
    from Cons.prems(6) Body obtain g where a: "a = Some g" and d: "d" by auto
    from Cons.prems(7) Body
    have total: "unat (size_r r) + (unat sz * unat nmemb + length (concat (body_chunks ds))) + 1
                   < 2 ^ 64"
      by simp
    then have k: "unat (sz * nmemb) = unat sz * unat nmemb"
      by (intro unat_product) simp
    have b: "unat (size_r r) + unat (sz * nmemb) + 1 < 2 ^ 64"
      using total k by simp
    from resp_callback_total [OF Cons.prems(1-3) b, of g content]
    obtain r1 buf1 where r1:
      "resp_callback (Some g) True content sz nmemb r = Inr (sz * nmemb, r1)"
      "text_r r1 = Live buf1" "length buf1 = unat (size_r r1) + 1" "NUL \<in> set buf1"
      "unat (size_r r1) = unat (size_r r) + unat (sz * nmemb)"
      "resp_hdrv r1 = resp_hdrv r" "resp_hdrc r1 = resp_hdrc r"
      by blast
    have "\<exists>r'. transfer h ds r1 = Inr (True, r')
            \<and> unat (size_r r') = unat (size_r r1) + length (concat (body_chunks ds))"
    proof (rule Cons.IH [OF r1(2-4)])
      show "resp_hdrv r1 = Live hs" using r1(6) Cons.prems(4) by simp
      show "resp_hdrc r1 = int (length hs)" using r1(7) Cons.prems(5) by simp
      show "\<forall>d\<in>set ds. allocated d" using Cons.prems(6) by simp
      show "unat (size_r r1) + length (concat (body_chunks ds)) + 1 < 2 ^ 64"
        using total r1(5) k by simp
      show "int (length hs + length (header_lines ds)) \<le> INT_MAX"
        using Cons.prems(8) Body by simp
    qed
    then show ?thesis
      using r1(1,5) k Body a d assms(1) by (simp add: add.assoc)
  next
    case (Header a d content sz nmemb)
    from Cons.prems(6) Header have a: "a" by simp
    from Cons.prems(8) Header have room: "int (length hs) < INT_MAX"
      and rest: "int (Suc (length hs) + length (header_lines ds)) \<le> INT_MAX"
      by simp_all
    define r1 where "r1 = (if strcmp_eq content 0 CRLF then r
       else r\<lparr>resp_hdrv := Live (hs @ [strndup_c d content (unat (sz * nmemb + 1))]),
              resp_hdrc := int (length hs) + 1\<rparr>)"
    have step: "header_callback True d content sz nmemb r = Inr (sz * nmemb, r1)"
      unfolding r1_def by (rule header_callback_stores [OF Cons.prems(4,5) room])
    obtain hs' where hs': "resp_hdrv r1 = Live hs'" "resp_hdrc r1 = int (length hs')"
      "length hs' \<le> Suc (length hs)"
      using Cons.prems(4,5) by (cases "strcmp_eq content 0 CRLF") (simp_all add: r1_def)
    have t: "text_r r1 = Live buf" "size_r r1 = size_r r"
      using Cons.prems(1) by (simp_all add: r1_def)
    have "\<exists>r'. transfer h ds r1 = Inr (True, r')
            \<and> unat (size_r r') = unat (size_r r1) + length (concat (body_chunks ds))"
    proof (rule Cons.IH [OF t(1) _ Cons.prems(3) hs'(1,2)])
      show "length buf = unat (size_r r1) + 1" using t(2) Cons.prems(2) by simp
      show "\<forall>d\<in>set ds. allocated d" using Cons.prems(6) by simp
      show "unat (size_r r1) + length (concat (body_chunks ds)) + 1 < 2 ^ 64"
        using Cons.prems(7) Header t(2) by simp
      show "int (length hs' + length (header_lines ds)) \<le> INT_MAX"
        using rest hs'(3) by simp
    qed
    then show ?thesis
      using step t(2) Header a assms(2) by simp
  qed
qed

lemma body_total_of_nat: "body_total ds = of_nat (length (concat (body_chunks ds)))"
proof (induction ds)
  case Nil
  then show ?case by simp
next
  case (Cons d ds)
  then show ?case by (cases d) simp_all
qed

text \<open>
  C8: from the context a successful \<open>requests_init\<close> leaves, for every exchange (any
  number of body deliveries of any sizes and contents, between any header deliveries) in
  which no allocation fails, the body with its terminator fits \<open>size_t\<close> and there are at
  most \<open>INT_MAX\<close> header deliveries, every delivery is consumed in full and \<open>size\<close> is
  the sum of the byte counts \<open>size * nmemb\<close> of the body deliveries: the sum the code
  computes in \<open>size_t\<close>, which is the number of bytes delivered. As every prefix of an
  exchange is an exchange, this holds after each invocation.
\<close>

theorem body_length_is_sum:
  assumes "requests_init a1 a2 a3 easy first req0 = Inr (Live hnd, first', r0)"
    and "WRITEFUNCTION h = Some resp_callback" and "HEADERFUNCTION h = Some header_callback"
    and "\<forall>d\<in>set ds. allocated d"
    and "length (concat (body_chunks ds)) + 1 < 2 ^ 64"
    and "int (length (header_lines ds)) \<le> INT_MAX"
  shows "\<exists>r. transfer h ds r0 = Inr (True, r)
           \<and> size_r r = body_total ds
           \<and> unat (size_r r) = length (concat (body_chunks ds))"
proof -
  from requests_init_buffers [OF assms(1)] requests_init_fields [OF assms(1)]
  have r0: "text_r r0 = Live [NUL]" "length [NUL] = unat (size_r r0) + 1" "NUL \<in> set [NUL]"
    "resp_hdrv r0 = Live []" "resp_hdrc r0 = int (length ([] :: string ptr list))"
    "size_r r0 = 0"
    by simp_all
  have "\<exists>r. transfer h ds r0 = Inr (True, r)
           \<and> unat (size_r r) = unat (size_r r0) + length (concat (body_chunks ds))"
    by (rule transfer_total [OF assms(2,3) r0(1-5) assms(4)]) (use assms(5,6) r0(6) in simp_all)
  then obtain r where r: "transfer h ds r0 = Inr (True, r)"
    "unat (size_r r) = length (concat (body_chunks ds))"
    using r0(6) by auto
  have "size_r r = of_nat (unat (size_r r))"
    by simp
  then have "size_r r = body_total ds"
    unfolding r(2) body_total_of_nat .
  with r show ?thesis by blast
qed

theorem body_length_is_sum_witness:
  "\<exists>r. transfer (common_opt fresh_curl ready_req)
         [Header True True (in_memory (''OK'' @ CRLF)) 1 4,
          Body (Some (\<lambda>_. CHR ''?'')) True (in_memory ''he'') 1 2,
          Body (Some (\<lambda>_. CHR ''?'')) True (in_memory [CHR ''l'', NUL, CHR ''o'']) 3 1]
         ready_req = Inr (True, r)
       \<and> size_r r = 5 \<and> unat (size_r r) = 5"
proof -
  let ?ds = "[Header True True (in_memory (''OK'' @ CRLF)) 1 4,
          Body (Some (\<lambda>_. CHR ''?'')) True (in_memory ''he'') 1 2,
          Body (Some (\<lambda>_. CHR ''?'')) True (in_memory [CHR ''l'', NUL, CHR ''o'']) 3 1]"
  have chunks: "body_chunks ?ds = [''he'', [CHR ''l'', NUL, CHR ''o'']]"
    by code_simp
  have total: "body_total ?ds = 5"
    by simp
  have len: "length (concat [''he'', [CHR ''l'', NUL, CHR ''o'']]) = 5"
    by simp
  have h1: "\<forall>d\<in>set ?ds. allocated d"
    by simp
  have h2: "length (concat (body_chunks ?ds)) + 1 < 2 ^ 64"
    unfolding chunks by simp
  have h3: "int (length (header_lines ?ds)) \<le> INT_MAX"
    by (simp add: INT_MAX_def)
  from body_length_is_sum [OF requests_init_ready common_opt_sinks [of fresh_curl ready_req]
      h1 h2 h3]
  show ?thesis
    unfolding chunks total len .
qed

subsection \<open>The count returned\<close>

text \<open>
  C10: when \<open>realloc\<close> and \<open>strndup\<close> succeed the body callback returns \<open>size * nmemb\<close>;
  when \<open>realloc\<close> succeeds the header callback returns \<open>size * nmemb\<close>; and for the blank
  line the header callback returns \<open>size * nmemb\<close> and stores nothing, whatever the
  allocator would have done.
\<close>

theorem callbacks_return_count:
  "(resp_callback (Some g) True content sz nmemb r = Inr (n, r') \<longrightarrow> n = sz * nmemb)
   \<and> (header_callback True d content sz nmemb r = Inr (n, r') \<longrightarrow> n = sz * nmemb)
   \<and> (strcmp_eq content 0 CRLF \<longrightarrow>
        header_callback a d content sz nmemb r = Inr (sz * nmemb, r))"
  using resp_callback_returns [of g content sz nmemb r n r']
    header_callback_returns [of d content sz nmemb r n r']
    header_callback_sentinel [of content a d sz nmemb r]
  by blast

theorem callbacks_return_count_witness:
  "resp_callback (Some (\<lambda>_. CHR ''?'')) True (in_memory ''abc'') 1 3 ready_req
     = Inr (3, ready_req\<lparr>text_r := Live (''abc'' @ [NUL]), size_r := 3\<rparr>)
   \<and> header_callback True True (in_memory (''A: b'' @ CRLF)) 1 6 ready_req
     = Inr (6, ready_req\<lparr>resp_hdrv := Live [Live (''A: b'' @ CRLF)], resp_hdrc := 1\<rparr>)
   \<and> strcmp_eq (in_memory CRLF) 0 CRLF
   \<and> header_callback False False (in_memory CRLF) 1 2 ready_req = Inr (1 * 2, ready_req)"
proof -
  have body: "resp_callback (Some (\<lambda>_. CHR ''?'')) True (in_memory ''abc'') 1 3 ready_req
     = Inr (3, ready_req\<lparr>text_r := Live (''abc'' @ [NUL]), size_r := 3\<rparr>)"
    by code_simp
  have line: "header_callback True True (in_memory (''A: b'' @ CRLF)) 1 6 ready_req
     = Inr (6, ready_req\<lparr>resp_hdrv := Live [Live (''A: b'' @ CRLF)], resp_hdrc := 1\<rparr>)"
    by code_simp
  have blank: "strcmp_eq (in_memory CRLF) 0 CRLF"
    by code_simp
  from callbacks_return_count [where content = "in_memory CRLF" and a = False and d = False
      and sz = 1 and nmemb = 2 and r = ready_req] blank
  have "header_callback False False (in_memory CRLF) 1 2 ready_req = Inr (1 * 2, ready_req)"
    by blast
  with body line blank show ?thesis by blast
qed


subsection \<open>The response headers\<close>

text \<open>
  C2: the claim is that the blank line is never stored and that each stored string is
  its source line, byte for byte: exactly \<open>lineLength\<close> bytes, plus a terminator. The
  code compares with \<open>strcmp(content, "\r\n")\<close> and copies with
  \<open>strndup(content, size * nmemb + 1)\<close>, and both read the byte after the line. From the
  context a successful \<open>requests_init\<close> leaves, with no allocation failing, the 4-byte
  line \<open>ok\<close>, CR, LF that is followed in the buffer by \<open>X\<close> is stored as the 5 bytes
  \<open>ok\<close>, CR, LF, \<open>X\<close>; and the blank line CR, LF that is followed in the buffer by \<open>X\<close>
  is not recognised: it is stored, as CR, LF, \<open>X\<close>, and counted.
\<close>

theorem header_line_over_read:
  "transfer (common_opt fresh_curl ready_req)
     [Header True True (in_memory (''ok'' @ CRLF @ ''X'')) 1 4,
      Header True True (in_memory (CRLF @ ''X'')) 1 2] ready_req
   = Inr (True, ready_req\<lparr>resp_hdrv := Live [Live (''ok'' @ CRLF @ ''X''), Live (CRLF @ ''X'')],
                         resp_hdrc := 2\<rparr>)
   \<and> header_lines
     [Header True True (in_memory (''ok'' @ CRLF @ ''X'')) 1 4,
      Header True True (in_memory (CRLF @ ''X'')) 1 2]
   = [''ok'' @ CRLF, CRLF]"
  by code_simp

subsection \<open>The pipelines\<close>

lemma pt_headers_frame:
  "pt_headers a_slist a_hdrv a_dup custom_hdrv js slist req = Inr (b, slist', req') \<Longrightarrow>
     code req' = code req \<and> ok req' = ok req \<and> url req' = url req"
proof (induction js arbitrary: slist req)
  case Nil
  then show ?case by simp
next
  case (Cons i js)
  from Cons.prems obtain hv where hv: "custom_hdrv = Live hv" and i: "i < length hv"
    by (auto split: ptr.splits if_splits)
  from Cons.prems hv i obtain p where
    p: "realloc_v (a_hdrv i) (req_hdrv req) (nat (req_hdrc req + 1)) = Inr p"
    by (auto simp add: Let_def split: sum.splits)
  show ?case
  proof (cases p)
    case Null
    with Cons.prems hv i p show ?thesis
      by (auto simp add: Let_def)
  next
    case Invalid
    with Cons.prems hv i p show ?thesis
      by (auto simp add: Let_def)
  next
    case (Live v)
    let ?req = "req\<lparr>req_hdrv := Live (v[nat (req_hdrc req + 1 - 1) :=
        strndup_c (a_dup i) (in_memory (hv ! i)) (length (cstr (hv ! i)))]),
      req_hdrc := req_hdrc req + 1\<rparr>"
    from Cons.prems hv i p Live
    have rest: "pt_headers a_slist a_hdrv a_dup custom_hdrv js
                  (curl_slist_append (a_slist i) slist (hv ! i)) ?req
                  = Inr (b, slist', req')"
      by (auto simp add: Let_def split: if_splits)
    from Cons.IH [OF rest] show ?thesis
      by simp
  qed
qed

lemma deliver_keeps_verdict:
  assumes "WRITEFUNCTION h = Some resp_callback" "HEADERFUNCTION h = Some header_callback"
    and "deliver h d r = Inr (n, r')"
  shows "code r' = code r \<and> ok r' = ok r"
proof (cases d)
  case (Body a dd content sz nmemb)
  then show ?thesis using assms resp_callback_frame by auto
next
  case (Header a dd content sz nmemb)
  then show ?thesis using assms header_callback_frame by auto
qed

lemma transfer_keeps_verdict:
  assumes "WRITEFUNCTION h = Some resp_callback" "HEADERFUNCTION h = Some header_callback"
  shows "transfer h ds r = Inr (b, r') \<Longrightarrow> code r' = code r \<and> ok r' = ok r"
proof (induction ds arbitrary: r)
  case Nil
  then show ?case by simp
next
  case (Cons d ds)
  from Cons.prems obtain n r1 where d: "deliver h d r = Inr (n, r1)"
    by (auto split: sum.splits)
  note keep = deliver_keeps_verdict [OF assms d]
  show ?case
  proof (cases "n = passed d")
    case True
    with Cons.prems d have "transfer h ds r1 = Inr (b, r')" by simp
    from Cons.IH [OF this] keep show ?thesis by simp
  next
    case False
    with Cons.prems d keep show ?thesis by simp
  qed
qed

lemma perform_keeps_verdict:
  assumes "WRITEFUNCTION h = Some resp_callback" "HEADERFUNCTION h = Some header_callback"
    and "curl_easy_perform e h r = Inr (rc, r')"
  shows "code r' = code r \<and> ok r' = ok r"
proof -
  from assms(3) obtain b where "transfer h (deliveries (e h)) r = Inr (b, r')"
    by (auto simp add: curl_easy_perform_def split: sum.splits)
  from transfer_keeps_verdict [OF assms(1,2) this] show ?thesis .
qed

lemma requests_get_options_sinks:
  "WRITEFUNCTION (requests_get_options a_ua name curl req) = Some resp_callback"
  "HEADERFUNCTION (requests_get_options a_ua name curl req) = Some header_callback"
  by (simp_all add: requests_get_options_def common_opt_def)

lemma requests_pt_options_ready:
  assumes "requests_pt_options a_ua name a_cl a_slist a_hdrv a_dup curl req u data custom_hdrv
             custom_hdrc put_flag = Inr (b, h, r)"
  shows "code r = code req \<and> ok r = ok req"
    and "b \<Longrightarrow> WRITEFUNCTION h = Some resp_callback \<and> HEADERFUNCTION h = Some header_callback"
proof -
  show "code r = code req \<and> ok r = ok req"
  proof (cases "custom_hdrv = Null")
    case True
    with assms show ?thesis
      by (auto simp add: requests_pt_options_def Let_def split: if_splits)
  next
    case False
    with assms obtain c sl r2 where
      loop: "pt_headers a_slist a_hdrv a_dup custom_hdrv [0..<nat custom_hdrc]
               (if data \<noteq> Null then [] else curl_slist_append a_cl [] ''Content-Length: 0'')
               (req\<lparr>url := u\<rparr>) = Inr (c, sl, r2)"
      and r2: "r = r2"
      by (auto simp add: requests_pt_options_def Let_def split: sum.splits if_splits)
    from pt_headers_frame [OF loop] r2 show ?thesis by simp
  qed
  show "WRITEFUNCTION h = Some resp_callback \<and> HEADERFUNCTION h = Some header_callback" if "b"
    using assms that
    by (auto simp add: requests_pt_options_def Let_def common_opt_def split: sum.splits if_splits)
qed

text \<open>
  When \<open>curl_slist_append\<close>, \<open>realloc\<close> and the counter do not fail, the loop of
  \<open>requests_pt\<close> appends the custom headers to the list it starts from, and a call with
  no body gets as far as the transfer with \<open>Content-Length: 0\<close> installed first.
\<close>

lemma pt_headers_appends:
  "req_hdrv req = Live v \<Longrightarrow> req_hdrc req = int (length v) \<Longrightarrow>
   int (length v + length js) \<le> INT_MAX \<Longrightarrow>
   \<forall>i\<in>set js. i < length hv \<and> a_slist i \<and> a_hdrv i \<Longrightarrow>
   \<exists>req'. pt_headers a_slist a_hdrv a_dup (Live hv) js slist req
            = Inr (True, slist @ map (\<lambda>i. cstr (hv ! i)) js, req')"
proof (induction js arbitrary: slist req v)
  case Nil
  then show ?case by simp
next
  case (Cons i js)
  from Cons.prems(4) have i: "i < length hv" "a_slist i" "a_hdrv i"
    by simp_all
  from Cons.prems(3) have room: "int (length v) < INT_MAX"
    and rest: "int (Suc (length v) + length js) \<le> INT_MAX"
    by simp_all
  define req1 where "req1 = req\<lparr>req_hdrv := Live (v @ [strndup_c (a_dup i) (in_memory (hv ! i))
      (length (cstr (hv ! i)))]), req_hdrc := int (length v) + 1\<rparr>"
  have n: "nat (int (length v) + 1) = Suc (length v)" by simp
  have step: "pt_headers a_slist a_hdrv a_dup (Live hv) (i # js) slist req
      = pt_headers a_slist a_hdrv a_dup (Live hv) js (slist @ [cstr (hv ! i)]) req1"
    using i room
    by (simp add: Cons.prems(1,2) n realloc_v_grow Let_def curl_slist_append_def req1_def)
  have "\<exists>req'. pt_headers a_slist a_hdrv a_dup (Live hv) js (slist @ [cstr (hv ! i)]) req1
            = Inr (True, (slist @ [cstr (hv ! i)]) @ map (\<lambda>i. cstr (hv ! i)) js, req')"
  proof (rule Cons.IH)
    show "req_hdrv req1 = Live (v @ [strndup_c (a_dup i) (in_memory (hv ! i))
      (length (cstr (hv ! i)))])"
      by (simp add: req1_def)
    show "req_hdrc req1 = int (length (v @ [strndup_c (a_dup i) (in_memory (hv ! i))
      (length (cstr (hv ! i)))]))"
      by (simp add: req1_def)
    show "int (length (v @ [strndup_c (a_dup i) (in_memory (hv ! i))
      (length (cstr (hv ! i)))]) + length js) \<le> INT_MAX"
      using rest by simp
    show "\<forall>i\<in>set js. i < length hv \<and> a_slist i \<and> a_hdrv i"
      using Cons.prems(4) by simp
  qed
  then show ?case
    unfolding step by simp
qed

lemma requests_pt_options_no_body:
  "\<exists>h r. requests_pt_options a_ua name True a_slist a_hdrv a_dup curl req u Null Null
            custom_hdrc put_flag = Inr (True, h, r)
         \<and> HTTPHEADER h = [''Content-Length: 0'']"
  by (simp add: requests_pt_options_def Let_def common_opt_def curl_slist_append_def
      cstr_def NUL_def)

lemma requests_pt_options_no_body_headers:
  assumes "req_hdrv req = Live v" and "req_hdrc req = int (length v)"
    and "int (length v + nat custom_hdrc) \<le> INT_MAX"
    and "nat custom_hdrc \<le> length hv"
    and "\<forall>i < nat custom_hdrc. a_slist i \<and> a_hdrv i"
  shows "\<exists>h r. requests_pt_options a_ua name True a_slist a_hdrv a_dup curl req u Null (Live hv)
            custom_hdrc put_flag = Inr (True, h, r)
         \<and> HTTPHEADER h
             = ''Content-Length: 0'' # map (\<lambda>i. cstr (hv ! i)) [0..<nat custom_hdrc]"
proof -
  have "\<exists>req'. pt_headers a_slist a_hdrv a_dup (Live hv) [0..<nat custom_hdrc]
                 [''Content-Length: 0''] (req\<lparr>url := u\<rparr>)
            = Inr (True, [''Content-Length: 0''] @ map (\<lambda>i. cstr (hv ! i)) [0..<nat custom_hdrc],
                req')"
  proof (rule pt_headers_appends)
    show "req_hdrv (req\<lparr>url := u\<rparr>) = Live v" using assms(1) by simp
    show "req_hdrc (req\<lparr>url := u\<rparr>) = int (length v)" using assms(2) by simp
    show "int (length v + length [0..<nat custom_hdrc]) \<le> INT_MAX"
      using assms(3) by simp
    show "\<forall>i\<in>set [0..<nat custom_hdrc]. i < length hv \<and> a_slist i \<and> a_hdrv i"
      using assms(4,5) by simp
  qed
  then obtain req' where "pt_headers a_slist a_hdrv a_dup (Live hv) [0..<nat custom_hdrc]
                 [''Content-Length: 0''] (req\<lparr>url := u\<rparr>)
            = Inr (True, ''Content-Length: 0'' # map (\<lambda>i. cstr (hv ! i)) [0..<nat custom_hdrc],
                req')"
    by auto
  then show ?thesis
    by (simp add: requests_pt_options_def Let_def common_opt_def curl_slist_append_def
        cstr_def NUL_def)
qed

text \<open>
  C4: the claim is that every POST/PUT call with no body installs \<open>Content-Length: 0\<close>
  for transmission, alone or alongside the custom headers. \<open>requests_pt\<close> assigns the
  result of \<open>curl_slist_append\<close> to \<open>slist\<close> without testing it, and
  \<open>curl_slist_append\<close> returns \<open>NULL\<close> when it cannot allocate. With no body and no
  custom headers, when the append of \<open>Content-Length: 0\<close> fails the empty list is
  installed; the transfer goes ahead and the call returns \<open>CURLE_OK\<close>. With no body
  and the custom headers \<open>X-A: 1\<close> and \<open>X-B: 2\<close>, when the append of \<open>X-A: 1\<close> fails the
  list that held \<open>Content-Length: 0\<close> is replaced by \<open>NULL\<close>, and the list installed
  holds \<open>X-B: 2\<close> alone. No other allocation fails in these calls.
\<close>

theorem content_length_dropped:
  "requests_pt_options True linux False (\<lambda>_. True) (\<lambda>_. True) (\<lambda>_. True) fresh_curl ready_req
       (Live ''http://example.org/'') Null Null 0 0
     = Inr (True,
         fresh_curl\<lparr>HTTPHEADER := [], URL := Live ''http://example.org/'',
           WRITEFUNCTION := Some resp_callback, HEADERFUNCTION := Some header_callback,
           POST := True, USERAGENT := Live ''librequests/0.1 Linux/6.1''\<rparr>,
         ready_req\<lparr>url := Live ''http://example.org/''\<rparr>)
   \<and> requests_post True linux False (\<lambda>_. True) (\<lambda>_. True) (\<lambda>_. True)
       (\<lambda>_. \<lparr>deliveries = [], outcome = CURLE_OK, response_code = 200\<rparr>)
       fresh_curl ready_req (Live ''http://example.org/'') Null
     = Inr (CURLE_OK,
         fresh_curl\<lparr>HTTPHEADER := [], URL := Live ''http://example.org/'',
           WRITEFUNCTION := Some resp_callback, HEADERFUNCTION := Some header_callback,
           POST := True, USERAGENT := Live ''librequests/0.1 Linux/6.1''\<rparr>,
         ready_req\<lparr>url := Live ''http://example.org/'', code := 200, ok := 1\<rparr>)
   \<and> requests_pt_options True linux True (\<lambda>i. 0 < i) (\<lambda>_. True) (\<lambda>_. True) fresh_curl ready_req
       (Live ''http://example.org/'') Null (Live [''X-A: 1'', ''X-B: 2'']) 2 0
     = Inr (True,
         fresh_curl\<lparr>HTTPHEADER := [''X-B: 2''], URL := Live ''http://example.org/'',
           WRITEFUNCTION := Some resp_callback, HEADERFUNCTION := Some header_callback,
           POST := True, USERAGENT := Live ''librequests/0.1 Linux/6.1''\<rparr>,
         ready_req\<lparr>url := Live ''http://example.org/'',
           req_hdrv := Live [Live ''X-A: 1'', Live ''X-B: 2''], req_hdrc := 2\<rparr>)"
proof -
  have upt: "[0..<nat 2] = [0, 1]"
    by (simp add: upt_conv_Cons)
  have opts: "requests_pt_options True linux False (\<lambda>_. True) (\<lambda>_. True) (\<lambda>_. True) fresh_curl
       ready_req (Live ''http://example.org/'') Null Null 0 0
     = Inr (True,
         fresh_curl\<lparr>HTTPHEADER := [], URL := Live ''http://example.org/'',
           WRITEFUNCTION := Some resp_callback, HEADERFUNCTION := Some header_callback,
           POST := True, USERAGENT := Live ''librequests/0.1 Linux/6.1''\<rparr>,
         ready_req\<lparr>url := Live ''http://example.org/''\<rparr>)"
    by (simp add: requests_pt_options_def Let_def common_opt_def curl_slist_append_def
        user_agent_def snprintf_c_def linux_def fresh_curl_def ready_req_def cstr_def NUL_def)
  have post: "requests_post True linux False (\<lambda>_. True) (\<lambda>_. True) (\<lambda>_. True)
       (\<lambda>_. \<lparr>deliveries = [], outcome = CURLE_OK, response_code = 200\<rparr>)
       fresh_curl ready_req (Live ''http://example.org/'') Null
     = Inr (CURLE_OK,
         fresh_curl\<lparr>HTTPHEADER := [], URL := Live ''http://example.org/'',
           WRITEFUNCTION := Some resp_callback, HEADERFUNCTION := Some header_callback,
           POST := True, USERAGENT := Live ''librequests/0.1 Linux/6.1''\<rparr>,
         ready_req\<lparr>url := Live ''http://example.org/'', code := 200, ok := 1\<rparr>)"
    unfolding requests_post_def requests_pt_def opts
    by (simp add: curl_easy_perform_def check_ok_def ready_req_def)
  have hdrs: "requests_pt_options True linux True (\<lambda>i. 0 < i) (\<lambda>_. True) (\<lambda>_. True) fresh_curl
       ready_req (Live ''http://example.org/'') Null (Live [''X-A: 1'', ''X-B: 2'']) 2 0
     = Inr (True,
         fresh_curl\<lparr>HTTPHEADER := [''X-B: 2''], URL := Live ''http://example.org/'',
           WRITEFUNCTION := Some resp_callback, HEADERFUNCTION := Some header_callback,
           POST := True, USERAGENT := Live ''librequests/0.1 Linux/6.1''\<rparr>,
         ready_req\<lparr>url := Live ''http://example.org/'',
           req_hdrv := Live [Live ''X-A: 1'', Live ''X-B: 2''], req_hdrc := 2\<rparr>)"
    unfolding requests_pt_options_def upt
    by (simp add: Let_def common_opt_def curl_slist_append_def
        user_agent_def snprintf_c_def linux_def fresh_curl_def ready_req_def realloc_v_def
        strndup_c_def in_memory_def cstr_def NUL_def INT_MAX_def)
  from opts post hdrs show ?thesis
    by (intro conjI)
qed

text \<open>
  C5: in \<open>requests_get\<close> and in \<open>requests_pt\<close>, when \<open>curl_easy_perform\<close> returns an
  outcome other than \<open>CURLE_OK\<close>, the function returns that outcome, and \<open>code\<close> and
  \<open>ok\<close> of the context are what they were before the call.
\<close>

theorem transport_failure_propagates:
  "(curl_easy_perform e (requests_get_options a_ua name curl (req\<lparr>url := u\<rparr>))
        (req\<lparr>url := u\<rparr>) = Inr (rc, r') \<and> rc \<noteq> CURLE_OK \<longrightarrow>
      requests_get a_ua name e curl req u
        = Inr (rc, requests_get_options a_ua name curl (req\<lparr>url := u\<rparr>), r')
      \<and> code r' = code req \<and> ok r' = ok req)
   \<and> (requests_pt_options a_ua name a_cl a_slist a_hdrv a_dup curl req u data custom_hdrv
          custom_hdrc put_flag = Inr (True, h, r1)
        \<and> curl_easy_perform e h r1 = Inr (rc, r') \<and> rc \<noteq> CURLE_OK \<longrightarrow>
      requests_pt a_ua name a_cl a_slist a_hdrv a_dup e curl req u data custom_hdrv custom_hdrc
          put_flag
        = Inr (rc, h, r')
      \<and> code r' = code req \<and> ok r' = ok req)"
proof (intro conjI impI)
  assume a: "curl_easy_perform e (requests_get_options a_ua name curl (req\<lparr>url := u\<rparr>))
        (req\<lparr>url := u\<rparr>) = Inr (rc, r') \<and> rc \<noteq> CURLE_OK"
  then show "requests_get a_ua name e curl req u
        = Inr (rc, requests_get_options a_ua name curl (req\<lparr>url := u\<rparr>), r')"
    by (simp add: requests_get_def Let_def)
  from a have p: "curl_easy_perform e (requests_get_options a_ua name curl (req\<lparr>url := u\<rparr>))
        (req\<lparr>url := u\<rparr>) = Inr (rc, r')"
    by simp
  from perform_keeps_verdict [OF requests_get_options_sinks p]
  show "code r' = code req" "ok r' = ok req"
    by simp_all
next
  assume a: "requests_pt_options a_ua name a_cl a_slist a_hdrv a_dup curl req u data custom_hdrv
          custom_hdrc put_flag = Inr (True, h, r1)
        \<and> curl_easy_perform e h r1 = Inr (rc, r') \<and> rc \<noteq> CURLE_OK"
  then show "requests_pt a_ua name a_cl a_slist a_hdrv a_dup e curl req u data custom_hdrv
          custom_hdrc put_flag
        = Inr (rc, h, r')"
    by (simp add: requests_pt_def)
  from a have opts: "requests_pt_options a_ua name a_cl a_slist a_hdrv a_dup curl req u data
      custom_hdrv custom_hdrc put_flag = Inr (True, h, r1)"
    by simp
  from requests_pt_options_ready(2) [OF opts]
  have sinks: "WRITEFUNCTION h = Some resp_callback" "HEADERFUNCTION h = Some header_callback"
    by simp_all
  from a have p: "curl_easy_perform e h r1 = Inr (rc, r')"
    by simp
  from perform_keeps_verdict [OF sinks p] requests_pt_options_ready(1) [OF opts]
  show "code r' = code req" "ok r' = ok req"
    by simp_all
qed

theorem transport_failure_propagates_witness:
  "requests_get True linux
     (\<lambda>_. \<lparr>deliveries = [Header True True (in_memory (''HTTP/1.1 200 OK'' @ CRLF)) 1 17,
                         Body (Some (\<lambda>_. CHR ''?'')) True (in_memory ''par'') 1 3],
           outcome = CURLE_FAILED 56, response_code = 200\<rparr>)
     fresh_curl ready_req (Live ''http://example.org/'')
   = Inr (CURLE_FAILED 56,
       requests_get_options True linux fresh_curl (ready_req\<lparr>url := Live ''http://example.org/''\<rparr>),
       ready_req\<lparr>url := Live ''http://example.org/'', text_r := Live (''par'' @ [NUL]),
         size_r := 3, resp_hdrv := Live [Live (''HTTP/1.1 200 OK'' @ CRLF)], resp_hdrc := 1\<rparr>)
   \<and> code (ready_req\<lparr>url := Live ''http://example.org/'', text_r := Live (''par'' @ [NUL]),
         size_r := 3, resp_hdrv := Live [Live (''HTTP/1.1 200 OK'' @ CRLF)], resp_hdrc := 1\<rparr>)
       = code ready_req
   \<and> ok (ready_req\<lparr>url := Live ''http://example.org/'', text_r := Live (''par'' @ [NUL]),
         size_r := 3, resp_hdrv := Live [Live (''HTTP/1.1 200 OK'' @ CRLF)], resp_hdrc := 1\<rparr>)
       = ok ready_req
   \<and> requests_pt True linux True (\<lambda>_. True) (\<lambda>_. True) (\<lambda>_. True)
     (\<lambda>_. \<lparr>deliveries = [], outcome = CURLE_FAILED 7, response_code = 0\<rparr>)
     fresh_curl ready_req (Live ''http://example.org/'') (Live ''a=1'') Null 0 1
   = Inr (CURLE_FAILED 7,
       fresh_curl\<lparr>POSTFIELDS := Live ''a=1'', URL := Live ''http://example.org/'',
         WRITEFUNCTION := Some resp_callback, HEADERFUNCTION := Some header_callback,
         CUSTOMREQUEST := Live ''PUT'', USERAGENT := Live ''librequests/0.1 Linux/6.1''\<rparr>,
       ready_req\<lparr>url := Live ''http://example.org/''\<rparr>)"
proof -
  let ?e = "\<lambda>_ :: CURL. \<lparr>deliveries = [Header True True (in_memory (''HTTP/1.1 200 OK'' @ CRLF)) 1 17,
                         Body (Some (\<lambda>_. CHR ''?'')) True (in_memory ''par'') 1 3],
           outcome = CURLE_FAILED 56, response_code = 200\<rparr>"
  let ?f = "\<lambda>_ :: CURL. \<lparr>deliveries = [], outcome = CURLE_FAILED 7, response_code = 0\<rparr>"
  let ?u = "Live ''http://example.org/''"
  have get: "curl_easy_perform ?e (requests_get_options True linux fresh_curl (ready_req\<lparr>url := ?u\<rparr>))
       (ready_req\<lparr>url := ?u\<rparr>)
     = Inr (CURLE_FAILED 56,
         ready_req\<lparr>url := ?u, text_r := Live (''par'' @ [NUL]),
           size_r := 3, resp_hdrv := Live [Live (''HTTP/1.1 200 OK'' @ CRLF)], resp_hdrc := 1\<rparr>)
     \<and> CURLE_FAILED 56 \<noteq> CURLE_OK"
    by code_simp
  have opts: "requests_pt_options True linux True (\<lambda>_. True) (\<lambda>_. True) (\<lambda>_. True) fresh_curl
       ready_req ?u (Live ''a=1'') Null 0 1
     = Inr (True,
         fresh_curl\<lparr>POSTFIELDS := Live ''a=1'', URL := ?u,
           WRITEFUNCTION := Some resp_callback, HEADERFUNCTION := Some header_callback,
           CUSTOMREQUEST := Live ''PUT'', USERAGENT := Live ''librequests/0.1 Linux/6.1''\<rparr>,
         ready_req\<lparr>url := ?u\<rparr>)"
    by (simp add: requests_pt_options_def Let_def common_opt_def user_agent_def snprintf_c_def
        linux_def fresh_curl_def ready_req_def cstr_def NUL_def)
  have pt: "curl_easy_perform ?f
       (fresh_curl\<lparr>POSTFIELDS := Live ''a=1'', URL := ?u,
           WRITEFUNCTION := Some resp_callback, HEADERFUNCTION := Some header_callback,
           CUSTOMREQUEST := Live ''PUT'', USERAGENT := Live ''librequests/0.1 Linux/6.1''\<rparr>)
       (ready_req\<lparr>url := ?u\<rparr>)
     = Inr (CURLE_FAILED 7, ready_req\<lparr>url := ?u\<rparr>) \<and> CURLE_FAILED 7 \<noteq> CURLE_OK"
    by (simp add: curl_easy_perform_def)
  note t = transport_failure_propagates [where e = ?e and a_ua = True and name = linux
      and curl = fresh_curl and req = ready_req and u = ?u and rc = "CURLE_FAILED 56",
      THEN conjunct1, rule_format, OF get]
  note p = transport_failure_propagates [where e = ?f, THEN conjunct2, rule_format,
      OF conjI [OF opts pt]]
  from t p show ?thesis
    by simp
qed

subsection \<open>The encoder\<close>

lemma takeWhile_terminated:
  "NUL \<notin> set s \<Longrightarrow> takeWhile (\<lambda>c. c \<noteq> NUL) (s @ NUL # rest) = s"
  by (induction s) auto

lemma strncat_c_terminated:
  assumes "NUL \<notin> set s" and "n \<le> length junk"
  shows "strncat_c (s @ NUL # junk) src n
           = Inr (s @ take n src @ [NUL] @ drop (length (take n src)) junk)"
proof -
  have "length (take n src) \<le> length junk"
    using assms(2) by simp
  then show ?thesis
    using assms(1) by (simp add: strncat_c_def Let_def takeWhile_terminated del: length_take)
qed

lemma cstr_free: "NUL \<notin> set (cstr s)"
  unfolding cstr_def by (auto dest: set_takeWhileD)

lemma strncat_c_strlen:
  assumes "strncat_c dest t (length t) = Inr e" and "NUL \<notin> set t"
  shows "length e = length dest"
    and "length (cstr e) = length (cstr dest) + length t"
    and "length (cstr e) < length e"
proof -
  define p where "p = length (takeWhile (\<lambda>c. c \<noteq> NUL) dest)"
  have "strncat_c dest t (length t)
      = (if p = length dest then Inl Out_of_bounds
         else if length dest < p + length t + 1 then Inl Out_of_bounds
         else Inr (take p dest @ t @ [NUL] @ drop (p + length t + 1) dest))"
    by (simp add: strncat_c_def Let_def p_def)
  with assms(1) have fit: "p + length t + 1 \<le> length dest"
    and e: "e = take p dest @ t @ [NUL] @ drop (p + length t + 1) dest"
    by (simp_all split: if_splits)
  have head: "take p dest = takeWhile (\<lambda>c. c \<noteq> NUL) dest"
    unfolding p_def by (rule takeWhile_eq_take [symmetric])
  have free: "NUL \<notin> set (take p dest @ t)"
    unfolding head using assms(2) by (auto dest: set_takeWhileD)
  have "cstr e = take p dest @ t"
    unfolding cstr_def e
    using takeWhile_terminated [OF free, of "drop (p + length t + 1) dest"] by simp
  then have len: "length (cstr e) = p + length t"
    using fit by simp
  show "length e = length dest"
    unfolding e using fit by simp
  then show "length (cstr e) < length e"
    using len fit by simp
  show "length (cstr e) = length (cstr dest) + length t"
    using len by (simp add: p_def cstr_def)
qed

lemma sum_lengths_result:
  "sum_lengths data js t = Inr t' \<Longrightarrow>
     (\<forall>j\<in>set js. j < length data)
     \<and> t' = t + of_nat (sum_list (map (\<lambda>j. length (cstr (data ! j))) js))"
proof (induction js arbitrary: t)
  case Nil
  then show ?case by simp
next
  case (Cons i js)
  from Cons.prems have i: "i < length data"
    and rest: "sum_lengths data js (t + of_nat (length (cstr (data ! i)))) = Inr t'"
    by (auto split: if_splits)
  from Cons.IH [OF rest] i show ?case
    by (simp add: add.assoc)
qed

text \<open>
  What a run of the second loop that returns has appended: at least the strings from
  index \<open>i\<close> on and one separator, inside a block whose length has not changed.
\<close>

lemma assemble_strlen:
  "assemble data n i enc = Inr e \<Longrightarrow> 0 \<le> i \<Longrightarrow> even i \<Longrightarrow> even n \<Longrightarrow>
     length e = length enc
     \<and> (i < n \<longrightarrow> length (cstr e) < length e
           \<and> length (cstr enc)
               + sum_list (map (\<lambda>j. length (cstr (data ! j))) [nat i..<nat n]) + 1
             \<le> length (cstr e))"
proof (induction "nat (n - i)" arbitrary: i enc rule: less_induct)
  case less
  note prems = less.prems
  show ?case
  proof (cases "i < n")
    case False
    with prems(1) show ?thesis
      by (simp add: assemble.simps [of data n i enc])
  next
    case True
    define key where "key = cstr (data ! nat i)"
    define val where "val = cstr (data ! nat (i + 1))"
    define tm where "tm = (if i = 0 then key @ ''='' @ val else ''&'' @ key @ ''='' @ val)"
    have term_eq: "(if i = 0 then snprintf_c (length key + length val + 2) (key @ ''='' @ val)
            else snprintf_c (length key + length val + 3) (''&'' @ key @ ''='' @ val)) = tm"
      by (simp add: snprintf_c_def tm_def)
    have free: "NUL \<notin> set tm"
      using cstr_free [of "data ! nat i"] cstr_free [of "data ! nat (i + 1)"]
      by (auto simp add: tm_def key_def val_def NUL_def)
    have tml: "length key + length val + 1 \<le> length tm"
      by (simp add: tm_def)
    from prems(1) True prems(2) have inside: "\<not> length data \<le> nat (i + 1)"
      by (auto simp add: assemble.simps [of data n i enc] split: if_splits)
    from prems(1) True prems(2) inside
    obtain e1 where cat: "strncat_c enc tm (length tm) = Inr e1"
      and rest: "assemble data n (i + 2) e1 = Inr e"
      using term_eq
      by (auto simp add: assemble.simps [of data n i enc] Let_def key_def [symmetric]
          val_def [symmetric] split: sum.splits if_splits)
    note c = strncat_c_strlen [OF cat free]
    have ih: "length e = length e1
       \<and> (i + 2 < n \<longrightarrow> length (cstr e) < length e
           \<and> length (cstr e1)
               + sum_list (map (\<lambda>j. length (cstr (data ! j))) [nat (i + 2)..<nat n]) + 1
             \<le> length (cstr e))"
    proof (rule less.hyps [OF _ rest])
      show "nat (n - (i + 2)) < nat (n - i)" using True by simp
      show "0 \<le> i + 2" using prems(2) by simp
      show "even (i + 2)" using prems(3) by simp
      show "even n" by (rule prems(4))
    qed
    have i1: "i + 1 < n"
      using True prems(3,4) by presburger
    have idx: "[nat i..<nat n] = nat i # nat (i + 1) # [nat (i + 2)..<nat n]"
    proof -
      have n1: "nat (i + 1) = Suc (nat i)" and n2: "nat (i + 2) = Suc (Suc (nat i))"
        using prems(2) by simp_all
      have lt: "Suc (nat i) < nat n"
        using i1 prems(2) by simp
      then have "nat i < nat n"
        by linarith
      then have "[nat i..<nat n] = nat i # [Suc (nat i)..<nat n]"
        by (rule upt_conv_Cons)
      also have "[Suc (nat i)..<nat n] = Suc (nat i) # [Suc (Suc (nat i))..<nat n]"
        using lt by (rule upt_conv_Cons)
      finally show ?thesis
        unfolding n1 n2 .
    qed
    define S where "S = sum_list (map (\<lambda>j. length (cstr (data ! j))) [nat (i + 2)..<nat n])"
    define T where "T = sum_list (map (\<lambda>j. length (cstr (data ! j))) [nat i..<nat n])"
    have sum: "T = length key + length val + S"
      unfolding T_def S_def idx by (simp add: key_def val_def)
    have ih': "length e = length e1" "i + 2 < n \<Longrightarrow> length (cstr e) < length e"
      "i + 2 < n \<Longrightarrow> length (cstr e1) + S + 1 \<le> length (cstr e)"
      using ih unfolding S_def by simp_all
    have "length e = length enc \<and> length (cstr e) < length e
        \<and> length (cstr enc) + T + 1 \<le> length (cstr e)"
    proof (cases "i + 2 < n")
      case True
      from ih'(1) ih'(2) [OF True] ih'(3) [OF True] c tml sum show ?thesis
        by linarith
    next
      case False
      then have "S = 0"
        unfolding S_def by simp
      moreover from False rest have "e = e1"
        by (simp add: assemble.simps [of data n "i + 2" e1])
      ultimately show ?thesis
        using c tml sum by simp
    qed
    then show ?thesis
      unfolding T_def by simp
  qed
qed

text \<open>In an array that is long enough the second loop builds the plaintext.\<close>

lemma assemble_step:
  assumes "i < n" and "0 \<le> i" and "nat (i + 1) < length data"
  shows "assemble data n i enc
    = (case strncat_c enc
         (if i = 0 then cstr (data ! nat i) @ ''='' @ cstr (data ! nat (i + 1))
          else ''&'' @ cstr (data ! nat i) @ ''='' @ cstr (data ! nat (i + 1)))
         (length
           (if i = 0 then cstr (data ! nat i) @ ''='' @ cstr (data ! nat (i + 1))
            else ''&'' @ cstr (data ! nat i) @ ''='' @ cstr (data ! nat (i + 1)))) of
         Inl f \<Rightarrow> Inl f
       | Inr e \<Rightarrow> assemble data n (i + 2) e)"
  using assms by (subst assemble.simps) (simp add: Let_def snprintf_c_def)

lemma assemble_appends:
  assumes n: "even n" "nat n \<le> length data"
  shows "0 \<le> i \<Longrightarrow> even i \<Longrightarrow> i \<le> n \<Longrightarrow> NUL \<notin> set s \<Longrightarrow>
    T = (if i = 0 then plaintext (drop (nat i) (take (nat n) data))
         else more_pairs (drop (nat i) (take (nat n) data))) \<Longrightarrow>
    length T \<le> length junk \<Longrightarrow>
    assemble data n i (s @ NUL # junk) = Inr (s @ T @ NUL # drop (length T) junk)"
proof (induction "nat (n - i)" arbitrary: i s junk T rule: less_induct)
  case less
  note prems = less.prems
  show ?case
  proof (cases "i < n")
    case False
    with prems(3) have "i = n" by simp
    then have e: "drop (nat i) (take (nat n) data) = []"
      by simp
    have "T = []"
      unfolding prems(5) e by simp
    with False show ?thesis
      by (simp add: assemble.simps [of data n i])
  next
    case True
    have i1: "i + 1 < n"
      using True prems(2) n(1) by presburger
    define key where "key = cstr (data ! nat i)"
    define val where "val = cstr (data ! nat (i + 1))"
    define tm where "tm = (if i = 0 then key @ ''='' @ val else ''&'' @ key @ ''='' @ val)"
    define xs where "xs = drop (nat (i + 2)) (take (nat n) data)"
    have term_eq: "(if i = 0 then snprintf_c (length key + length val + 2) (key @ ''='' @ val)
            else snprintf_c (length key + length val + 3) (''&'' @ key @ ''='' @ val)) = tm"
      by (simp add: snprintf_c_def tm_def)
    have free: "NUL \<notin> set tm"
      using cstr_free [of "data ! nat i"] cstr_free [of "data ! nat (i + 1)"]
      by (auto simp add: tm_def key_def val_def NUL_def)
    have n1: "nat (i + 1) = Suc (nat i)" and n2: "nat (i + 2) = Suc (Suc (nat i))"
      using prems(1) by simp_all
    have lt: "Suc (nat i) < length (take (nat n) data)"
      using i1 prems(1) n(2) by simp
    then have lt0: "nat i < length (take (nat n) data)"
      by (rule Suc_lessD)
    have "drop (nat i) (take (nat n) data)
        = take (nat n) data ! nat i # drop (Suc (nat i)) (take (nat n) data)"
      using lt0 by (rule Cons_nth_drop_Suc [symmetric])
    also have "drop (Suc (nat i)) (take (nat n) data)
        = take (nat n) data ! Suc (nat i) # drop (Suc (Suc (nat i))) (take (nat n) data)"
      using lt by (rule Cons_nth_drop_Suc [symmetric])
    finally have "drop (nat i) (take (nat n) data)
        = take (nat n) data ! nat i # take (nat n) data ! Suc (nat i) # xs"
      by (simp add: xs_def n2)
    moreover have ltn: "Suc (nat i) < nat n"
      using i1 prems(1) by linarith
    have "take (nat n) data ! nat i = data ! nat i"
      "take (nat n) data ! Suc (nat i) = data ! Suc (nat i)"
      using ltn Suc_lessD [OF ltn] by (simp_all only: nth_take)
    ultimately have split: "drop (nat i) (take (nat n) data)
        = data ! nat i # data ! nat (i + 1) # xs"
      by (simp add: n1)
    have T: "T = tm @ more_pairs xs"
      unfolding prems(5) split by (simp add: tm_def key_def val_def)
    have inside: "\<not> (i < 0 \<or> length data \<le> nat (i + 1))"
      using lt prems(1) by (simp add: n1)
    have fits: "length tm \<le> length junk"
      using prems(6) T by simp
    have cat: "strncat_c (s @ NUL # junk) tm (length tm)
        = Inr ((s @ tm) @ NUL # drop (length tm) junk)"
      using strncat_c_terminated [OF prems(4) fits, of tm] by simp
    have rest: "assemble data n (i + 2) ((s @ tm) @ NUL # drop (length tm) junk)
        = Inr ((s @ tm) @ more_pairs xs
            @ NUL # drop (length (more_pairs xs)) (drop (length tm) junk))"
    proof (rule less.hyps)
      show "nat (n - (i + 2)) < nat (n - i)" using True by simp
      show "0 \<le> i + 2" using prems(1) by simp
      show "even (i + 2)" using prems(2) by simp
      show "i + 2 \<le> n" using i1 by simp
      show "NUL \<notin> set (s @ tm)" using prems(4) free by simp
      show "more_pairs xs = (if i + 2 = 0 then plaintext (drop (nat (i + 2)) (take (nat n) data))
         else more_pairs (drop (nat (i + 2)) (take (nat n) data)))"
        using prems(1) by (simp add: xs_def)
      show "length (more_pairs xs) \<le> length (drop (length tm) junk)"
        using prems(6) T by simp
    qed
    have "assemble data n i (s @ NUL # junk)
        = assemble data n (i + 2) ((s @ tm) @ NUL # drop (length tm) junk)"
      using assemble_step [OF True prems(1), of data "s @ NUL # junk"] inside cat
      unfolding key_def [symmetric] val_def [symmetric] tm_def [symmetric] by simp
    then show ?thesis
      unfolding rest T by (simp add: add.commute)
  qed
qed

lemma assemble_plaintext:
  assumes "even n" and "nat n \<le> length data"
    and "length (plaintext (take (nat n) data)) \<le> length junk"
  shows "assemble data n 0 (NUL # junk)
    = Inr (plaintext (take (nat n) data)
        @ NUL # drop (length (plaintext (take (nat n) data))) junk)"
proof (cases "0 \<le> n")
  case True
  from assemble_appends [OF assms(1,2), of 0 "[]" "plaintext (take (nat n) data)" junk] True assms(3)
  show ?thesis by simp
next
  case False
  then show ?thesis
    by (simp add: assemble.simps [of data n 0])
qed

lemma plaintext_example: "plaintext [''a'', ''1'', ''b'', ''2''] = ''a=1&b=2''"
  by (simp add: cstr_def NUL_def)

text \<open>
  The array of \<open>requests_url_encode\<close> is never long enough: for an even count the
  function does not return.
\<close>

lemma c_rem_2: "c_rem n 2 \<noteq> 0 \<longleftrightarrow> odd n"
proof -
  have "\<bar>n\<bar> mod 2 = 0 \<longleftrightarrow> even n"
    by presburger
  moreover have "sgn n = 0 \<longleftrightarrow> n = 0"
    by (simp add: sgn_if)
  ultimately show ?thesis
    unfolding c_rem_def by auto
qed

lemma requests_url_encode_even:
  assumes "even data_size"
  shows "\<exists>f. requests_url_encode esc junk data data_size = Inl f"
proof (cases "sum_lengths data [0..<nat data_size] 0")
  case (Inl f)
  with assms show ?thesis
    by (simp add: requests_url_encode_def c_rem_2)
next
  case (Inr total_size)
  define S where "S = sum_list (map (\<lambda>j. length (cstr (data ! j))) [0..<nat data_size])"
  define enc where "enc = (if 0 < unat total_size
      then (map junk [0..<unat total_size])[0 := NUL] else map junk [0..<unat total_size])"
  from sum_lengths_result [OF Inr] have "total_size = of_nat S"
    by (simp add: S_def)
  then have "unat total_size = S mod 2 ^ 64"
    by (simp add: unat_of_nat)
  then have cap: "unat total_size \<le> S"
    by simp
  have len: "length enc = unat total_size"
    by (simp add: enc_def)
  have unfold: "requests_url_encode esc junk data data_size
      = (case assemble data data_size 0 enc of
           Inl f \<Rightarrow> Inl f
         | Inr encoded \<Rightarrow>
             (case strlen_c encoded of
                Inl f \<Rightarrow> Inl f
              | Inr n \<Rightarrow> Inr (esc (take n encoded))))"
    using assms Inr by (simp add: requests_url_encode_def c_rem_2 Let_def enc_def)
  show ?thesis
  proof (cases "assemble data data_size 0 enc")
    case (Inl f)
    then show ?thesis
      unfolding unfold by simp
  next
    case (Inr e)
    from assemble_strlen [OF Inr _ _ assms]
    have e: "length e = length enc"
      and grown: "0 < data_size \<Longrightarrow> length (cstr e) < length e"
        "0 < data_size \<Longrightarrow> length (cstr enc) + S + 1 \<le> length (cstr e)"
      by (simp_all add: S_def)
    have "\<not> 0 < data_size"
    proof
      assume "0 < data_size"
      from grown(1) [OF this] grown(2) [OF this] e len cap show False
        by linarith
    qed
    then have "S = 0"
      by (simp add: S_def)
    with cap len e have "e = []"
      by simp
    then show ?thesis
      unfolding unfold Inr by (simp add: strlen_c_def)
  qed
qed

text \<open>
  C6: the claim is that for an even count the function returns the percent-encoding of
  \<open>k1=v1&...&kn=vn\<close>. The code declares \<open>encoded\<close> with \<open>total_size\<close> bytes, the sum
  of the lengths of the strings alone, and appends the separators and a terminator as
  well: for \<open>a\<close>, \<open>1\<close>, \<open>b\<close>, \<open>2\<close> the array has 4 bytes and the first \<open>strncat\<close> writes
  \<open>a=1\<close> and a terminator at offsets 0 to 3, the second \<open>&b=2\<close> and a terminator from
  offset 3 on. The run is a write beyond the array, whatever the collaborator and the
  initial contents of the array are.
\<close>

theorem url_encode_overflows:
  "requests_url_encode esc junk [''a'', ''1'', ''b'', ''2''] 4 = Inl Out_of_bounds"
  by code_simp




subsection \<open>Release after a failed allocation\<close>

text \<open>
  C9: the claim is that after a failed growth allocation \<open>requests_close\<close> is still safe.
  The failure is reported (the header callback returns \<open>- 1\<close>, \<open>requests_pt\<close> returns
  \<open>CURLE_OUT_OF_MEMORY\<close>, \<open>requests_init\<close> returns \<open>NULL\<close>), but the result of \<open>realloc\<close>
  was assigned to the array pointer itself and the count was kept: after one stored
  header line and one failed growth, \<open>resp_hdrv\<close> is \<open>NULL\<close> and \<open>resp_hdrc\<close> is 1, and
  \<open>requests_close\<close> reads \<open>resp_hdrv[0]\<close>. The same holds for \<open>req_hdrv\<close> in the loop of
  \<open>requests_pt\<close>. And when the first \<open>calloc\<close> of \<open>requests_init\<close> fails, the two header
  arrays are never assigned, and \<open>requests_close\<close> frees them.
\<close>

theorem close_after_failed_growth:
  "header_callback True True (in_memory (''A: b'' @ CRLF)) 1 6 ready_req
     = Inr (6, ready_req\<lparr>resp_hdrv := Live [Live (''A: b'' @ CRLF)], resp_hdrc := 1\<rparr>)
   \<and> header_callback False True (in_memory (''C: d'' @ CRLF)) 1 6
       (ready_req\<lparr>resp_hdrv := Live [Live (''A: b'' @ CRLF)], resp_hdrc := 1\<rparr>)
     = Inr (- 1, ready_req\<lparr>resp_hdrv := Null, resp_hdrc := 1\<rparr>)
   \<and> requests_close (ready_req\<lparr>resp_hdrv := Null, resp_hdrc := 1\<rparr>) = Inl Null_dereference
   \<and> requests_init False True True (Live ()) 1 raw_req
     = Inr (Null, 1, raw_req\<lparr>url := Null, text_r := Null, ok := - 1\<rparr>)
   \<and> requests_close (raw_req\<lparr>url := Null, text_r := Null, ok := - 1\<rparr>) = Inl Invalid_pointer
   \<and> pt_headers (\<lambda>_. True) (\<lambda>i. i = 0) (\<lambda>_. True) (Live [''X-A: 1'', ''X-B: 2'']) [0..<nat 2] []
       ready_req
     = Inr (False, [''X-A: 1'', ''X-B: 2''],
         ready_req\<lparr>req_hdrv := Null, req_hdrc := 1\<rparr>)
   \<and> requests_close (ready_req\<lparr>req_hdrv := Null, req_hdrc := 1\<rparr>) = Inl Null_dereference"
  by code_simp

end
